theory Spec2Isabelle
  imports Complex_Main
begin

section \<open>The Node adapter of better-call: \<open>adapters/node/request.ts\<close>\<close>

text \<open>
  The adapter bridges Node's event-driven request and response objects and the pull-based
  \<open>Request\<close>/\<open>Response\<close> objects of the Fetch standard.  Each function of the source
  file is embedded below under its own name.  Objects of the platform (the incoming
  message, the server response, stream controllers, \<open>URLSearchParams\<close>) are records and
  datatypes holding exactly the fields the source reads or writes; mutation is explicit
  state passing; a \<open>throw\<close> is the \<open>Inl\<close> branch of a sum.
\<close>

subsection \<open>JavaScript values\<close>

text \<open>
  A JavaScript number is \<open>NaN\<close>, an infinity or a finite value.  Finite values are
  rationals: every finite double is one, comparison of doubles is comparison of their
  values, and the byte counter of the source only ever holds sums of chunk lengths.
\<close>

datatype jsnum = NaN | NegInf | Fin rat | PosInf

text \<open>Truthiness of a number: \<open>NaN\<close> and zero are falsy.\<close>

fun truthy_num :: "jsnum \<Rightarrow> bool" where
  "truthy_num NaN = False"
| "truthy_num (Fin r) = (r \<noteq> 0)"
| "truthy_num NegInf = True"
| "truthy_num PosInf = True"

text \<open>The relational operator \<open>a > b\<close>: false as soon as one side is \<open>NaN\<close>.\<close>

fun js_gt :: "jsnum \<Rightarrow> jsnum \<Rightarrow> bool" where
  "js_gt NaN b = False"
| "js_gt a NaN = False"
| "js_gt NegInf b = False"
| "js_gt (Fin a) NegInf = True"
| "js_gt (Fin a) (Fin b) = (b < a)"
| "js_gt (Fin a) PosInf = False"
| "js_gt PosInf PosInf = False"
| "js_gt PosInf b = True"

text \<open>
  A template literal is kept as its parts: literal text and the numbers substituted into
  it, so that no rendering of doubles has to be modelled.
\<close>

datatype part = Txt string | Num jsnum

type_synonym tmpl = "part list"

text \<open>
  A thrown value: an error object with its \<open>name\<close> and \<open>message\<close>
  (\<open>new Error(m)\<close> is \<open>ErrorObj ''Error'' m\<close>), or any other value, carried as the text
  \<open>String(value)\<close> yields.
\<close>

datatype thrown = ErrorObj string tmpl | Value tmpl

abbreviation Error :: "tmpl \<Rightarrow> thrown" where
  "Error m \<equiv> ErrorObj ''Error'' m"

text \<open>\<open>String(error)\<close>, for an error object \<open>Error.prototype.toString\<close>.\<close>

fun String_of :: "thrown \<Rightarrow> tmpl" where
  "String_of (ErrorObj n m) =
     (if n = [] then m else if m = [] then [Txt n] else Txt n # Txt '': '' # m)"
| "String_of (Value t) = t"

text \<open>\<open>error instanceof Error\<close>\<close>

fun instanceof_Error :: "thrown \<Rightarrow> bool" where
  "instanceof_Error (ErrorObj n m) = True"
| "instanceof_Error (Value t) = False"

text \<open>
  The values a pre-parsed body can hold, split the way the source inspects them:
  \<open>undefined\<close>, \<open>null\<close>, strings, \<open>URLSearchParams\<close> instances, arrays, plain objects (their
  entries in \<open>Object.entries\<close> order) and everything else (numbers, booleans, class
  instances), carried as the text its string coercion yields.
\<close>

datatype jsval =
    Undefined
  | Null
  | Str string
  | SearchParams "(string \<times> string) list"
  | Arr "jsval list"
  | PlainObj "(string \<times> jsval) list"
  | Other string

subsection \<open>The incoming message\<close>

text \<open>A header of \<open>IncomingHttpHeaders\<close> is a string or an array of strings.\<close>

datatype hval = Single string | Multi "string list"

type_synonym headers = "string \<Rightarrow> hval option"

text \<open>Truthiness of \<open>h[name]\<close>: \<open>undefined\<close> and the empty string are falsy, arrays truthy.\<close>

fun truthy_header :: "hval option \<Rightarrow> bool" where
  "truthy_header None = False"
| "truthy_header (Some (Single s)) = (s \<noteq> [])"
| "truthy_header (Some (Multi ss)) = True"

record request =
  headers :: headers
  req_method :: string
  url :: string
  baseUrl :: "string option"
  originalUrl :: "string option"
  httpVersionMajor :: nat
  destroyed :: bool
  readableEnded :: bool
  readable :: bool
  body :: jsval

text \<open>Truthiness of an optional string such as \<open>req.baseUrl\<close>.\<close>

fun truthy_str :: "string option \<Rightarrow> bool" where
  "truthy_str None = False"
| "truthy_str (Some s) = (s \<noteq> [])"

subsection \<open>Header helpers\<close>

fun getFirstHeaderValue :: "hval option \<Rightarrow> string option" where
  "getFirstHeaderValue (Some (Multi ss)) = (case ss of [] \<Rightarrow> None | s # _ \<Rightarrow> Some s)"
| "getFirstHeaderValue (Some (Single s)) = Some s"
| "getFirstHeaderValue None = None"

text \<open>\<open>String.prototype.toLowerCase\<close> on the ASCII letters, all a media type needs.\<close>

definition lower_char :: "char \<Rightarrow> char" where
  "lower_char c =
     (let n = (of_char c :: nat) in if 65 \<le> n \<and> n \<le> 90 then char_of (n + 32) else c)"

definition toLowerCase :: "string \<Rightarrow> string" where
  "toLowerCase s = map lower_char s"

definition startsWith :: "string \<Rightarrow> string \<Rightarrow> bool" where
  "startsWith s p = (take (length p) s = p)"

definition hasFormUrlEncodedContentType :: "headers \<Rightarrow> bool" where
  "hasFormUrlEncodedContentType h =
     (case getFirstHeaderValue (h ''content-type'') of
        None \<Rightarrow> False
      | Some contentType \<Rightarrow>
          if contentType = [] then False
          else startsWith (toLowerCase contentType) ''application/x-www-form-urlencoded'')"

definition canReadRawBody :: "request \<Rightarrow> bool" where
  "canReadRawBody request =
     (\<not> destroyed request \<and> \<not> readableEnded request \<and> readable request)"

subsection \<open>\<open>URLSearchParams\<close>: the \<open>application/x-www-form-urlencoded\<close> serializer\<close>

text \<open>
  A \<open>URLSearchParams\<close> object is its list of name/value tuples; \<open>append\<close> adds one at the
  end.  Strings are byte strings (the UTF-8 form of a well-formed JavaScript string).
  \<open>toString\<close> is the serializer of the URL Standard: the bytes \<open>* - . _\<close>, digits and
  ASCII letters stay, a space becomes \<open>+\<close>, every other byte becomes \<open>%HH\<close> in upper-case
  hexadecimal; tuples are written \<open>name=value\<close> and joined by \<open>&\<close>.
\<close>

type_synonym params = "(string \<times> string) list"

definition params_append :: "params \<Rightarrow> string \<Rightarrow> string \<Rightarrow> params" where
  "params_append ps k v = ps @ [(k, v)]"

definition urlencoded_safe :: "char \<Rightarrow> bool" where
  "urlencoded_safe c =
     (let n = (of_char c :: nat) in
        n = 42 \<or> n = 45 \<or> n = 46 \<or> n = 95 \<or> (48 \<le> n \<and> n \<le> 57) \<or>
        (65 \<le> n \<and> n \<le> 90) \<or> (97 \<le> n \<and> n \<le> 122))"

definition hexdigit :: "nat \<Rightarrow> char" where
  "hexdigit d = (if d < 10 then char_of (48 + d) else char_of (55 + d))"

definition encode_byte :: "char \<Rightarrow> string" where
  "encode_byte c =
     (if urlencoded_safe c then [c]
      else if c = CHR '' '' then ''+''
      else [CHR ''%'', hexdigit (of_char c div 16), hexdigit (of_char c mod 16)])"

definition urlencode :: "string \<Rightarrow> string" where
  "urlencode s = concat (map encode_byte s)"

fun join_amp :: "string list \<Rightarrow> string" where
  "join_amp [] = []"
| "join_amp [x] = x"
| "join_amp (x # y # ys) = x @ CHR ''&'' # join_amp (y # ys)"

definition serialize :: "params \<Rightarrow> string" where
  "serialize ps = join_amp (map (\<lambda>(k, v). urlencode k @ CHR ''='' # urlencode v) ps)"

subsection \<open>The standard \<open>application/x-www-form-urlencoded\<close> parser\<close>

text \<open>
  The parser of the URL Standard, which the round trip decodes with: split the input at
  every \<open>&\<close>, skip empty pieces, split a piece at its first \<open>=\<close> (no \<open>=\<close>: the value is
  empty), turn each \<open>+\<close> into a space and percent-decode name and value.
\<close>

fun split_on :: "char \<Rightarrow> string \<Rightarrow> string list" where
  "split_on d [] = [[]]"
| "split_on d (c # cs) =
     (if c = d then [] # split_on d cs
      else (case split_on d cs of [] \<Rightarrow> [[c]] | p # ps \<Rightarrow> (c # p) # ps))"

definition is_hex :: "char \<Rightarrow> bool" where
  "is_hex c =
     (let n = (of_char c :: nat) in
        (48 \<le> n \<and> n \<le> 57) \<or> (65 \<le> n \<and> n \<le> 70) \<or> (97 \<le> n \<and> n \<le> 102))"

definition hexval :: "char \<Rightarrow> nat" where
  "hexval c =
     (let n = (of_char c :: nat) in
        if n \<le> 57 then n - 48 else if n \<le> 70 then n - 55 else n - 87)"

fun percent_decode :: "string \<Rightarrow> string" where
  "percent_decode [] = []"
| "percent_decode (c # cs) =
     (case cs of
        h1 # h2 # rest \<Rightarrow>
          if c = CHR ''%'' \<and> is_hex h1 \<and> is_hex h2
          then char_of (16 * hexval h1 + hexval h2) # percent_decode rest
          else c # percent_decode cs
      | _ \<Rightarrow> c # percent_decode cs)"

definition plus_to_space :: "string \<Rightarrow> string" where
  "plus_to_space s = map (\<lambda>c. if c = CHR ''+'' then CHR '' '' else c) s"

definition parse_pair :: "string \<Rightarrow> string \<times> string" where
  "parse_pair piece =
     (let name = takeWhile (\<lambda>c. c \<noteq> CHR ''='') piece;
          val = drop (Suc (length name)) piece
      in (percent_decode (plus_to_space name), percent_decode (plus_to_space val)))"

definition parse_urlencoded :: "string \<Rightarrow> params" where
  "parse_urlencoded input = map parse_pair (filter (\<lambda>p. p \<noteq> []) (split_on CHR ''&'' input))"

subsection \<open>Re-serializing a pre-parsed body\<close>

text \<open>
  \<open>JSON.stringify\<close> belongs to the platform and is a parameter \<open>stringify\<close> of the
  functions that call it.  The template literal \<open>`${value}`\<close> of a value that is neither
  \<open>undefined\<close>, an array, \<open>null\<close> nor a plain object is its string coercion.
\<close>

fun coerce :: "jsval \<Rightarrow> string" where
  "coerce (Str s) = s"
| "coerce (SearchParams ps) = serialize ps"
| "coerce (Other t) = t"
| "coerce v = []"

fun isPlainObject :: "jsval \<Rightarrow> bool" where
  "isPlainObject (PlainObj es) = True"
| "isPlainObject v = False"

fun appendFormValue :: "(jsval \<Rightarrow> string) \<Rightarrow> params \<Rightarrow> string \<Rightarrow> jsval \<Rightarrow> params" where
  "appendFormValue stringify ps key Undefined = ps"
| "appendFormValue stringify ps key (Arr items) =
     fold (\<lambda>item acc. appendFormValue stringify acc key item) items ps"
| "appendFormValue stringify ps key Null = params_append ps key []"
| "appendFormValue stringify ps key (PlainObj es) = params_append ps key (stringify (PlainObj es))"
| "appendFormValue stringify ps key v = params_append ps key (coerce v)"

definition toFormUrlEncodedBody :: "(jsval \<Rightarrow> string) \<Rightarrow> (string \<times> jsval) list \<Rightarrow> string" where
  "toFormUrlEncodedBody stringify entries =
     serialize (fold (\<lambda>(key, v) acc. appendFormValue stringify acc key v) entries [])"

fun serializeParsedBody :: "(jsval \<Rightarrow> string) \<Rightarrow> jsval \<Rightarrow> bool \<Rightarrow> string" where
  "serializeParsedBody stringify (Str s) isFormUrlEncoded = s"
| "serializeParsedBody stringify (SearchParams ps) isFormUrlEncoded = serialize ps"
| "serializeParsedBody stringify (PlainObj es) isFormUrlEncoded =
     (if isFormUrlEncoded then toFormUrlEncodedBody stringify es else stringify (PlainObj es))"
| "serializeParsedBody stringify v isFormUrlEncoded = stringify v"

subsection \<open>The body stream built over the raw request\<close>

text \<open>
  The \<open>ReadableStream\<close> that \<open>get_raw_body\<close> returns closes over \<open>content_length\<close>,
  \<open>length\<close>, \<open>size\<close> and \<open>cancelled\<close>, over its controller and over the request.  The
  record holds these variables, then the controller's side as the Streams Standard has it
  (stream state, chunk queue, close request, pending read requests, chunks handed to the
  consumer), then what the handlers do to the request (paused, calls of \<open>destroy\<close>).
\<close>

datatype sstate = Readable | Closed | Errored thrown

record bridge =
  content_length :: jsnum
  length_limit :: jsnum
  size_read :: nat
  cancelled :: bool
  sstate :: sstate
  queue :: "string list"
  closeRequested :: bool
  readRequests :: nat
  delivered :: "string list"
  paused :: bool
  destroy_calls :: "thrown option list"

definition new_bridge :: "jsnum \<Rightarrow> jsnum \<Rightarrow> bridge" where
  "new_bridge cl len =
     \<lparr> content_length = cl, length_limit = len, size_read = 0, cancelled = False,
       sstate = Readable, queue = [], closeRequested = False, readRequests = 0,
       delivered = [], paused = False, destroy_calls = [] \<rparr>"

text \<open>
  The two callbacks of the source that touch only the request: \<open>pull\<close> resumes it,
  \<open>cancel\<close> sets \<open>cancelled\<close> and destroys it with the reason.
\<close>

definition pull :: "bridge \<Rightarrow> bridge" where
  "pull b = b\<lparr>paused := False\<rparr>"

definition cancel_source :: "thrown option \<Rightarrow> bridge \<Rightarrow> bridge" where
  "cancel_source reason b =
     b\<lparr>cancelled := True, destroy_calls := destroy_calls b @ [reason]\<rparr>"

text \<open>
  The controller, after the Streams Standard.  \<open>error\<close> does nothing unless the stream is
  readable; \<open>close\<close> and \<open>enqueue\<close> throw a \<open>TypeError\<close> when the stream is not readable
  or a close was requested; \<open>enqueue\<close> hands the chunk to a pending read when there is
  one; \<open>desiredSize\<close> is \<open>null\<close> for an errored stream, zero for a closed one, else the
  high-water mark (one chunk, the default strategy) less the queue.  After a chunk has
  come or gone the controller calls \<open>pull\<close> if the stream can still be fed and either a
  read is pending or the queue is below the high-water mark.
\<close>

definition controller_error :: "thrown \<Rightarrow> bridge \<Rightarrow> bridge" where
  "controller_error e b =
     (if sstate b = Readable then b\<lparr>sstate := Errored e, queue := [], readRequests := 0\<rparr>
      else b)"

definition canCloseOrEnqueue :: "bridge \<Rightarrow> bool" where
  "canCloseOrEnqueue b = (\<not> closeRequested b \<and> sstate b = Readable)"

definition callPullIfNeeded :: "bridge \<Rightarrow> bridge" where
  "callPullIfNeeded b =
     (if canCloseOrEnqueue b \<and> (0 < readRequests b \<or> length (queue b) < 1) then pull b else b)"

definition TypeError :: "string \<Rightarrow> thrown" where
  "TypeError m = ErrorObj ''TypeError'' [Txt m]"

definition controller_close :: "bridge \<Rightarrow> thrown + bridge" where
  "controller_close b =
     (if \<not> canCloseOrEnqueue b then Inl (TypeError ''Invalid state: Controller is already closed'')
      else if queue b = [] then Inr (b\<lparr>closeRequested := True, sstate := Closed, readRequests := 0\<rparr>)
      else Inr (b\<lparr>closeRequested := True\<rparr>))"

definition controller_enqueue :: "string \<Rightarrow> bridge \<Rightarrow> thrown + bridge" where
  "controller_enqueue chunk b =
     (if \<not> canCloseOrEnqueue b then Inl (TypeError ''Invalid state: Controller is already closed'')
      else if 0 < readRequests b
        then Inr (callPullIfNeeded
                    (b\<lparr>readRequests := readRequests b - 1, delivered := delivered b @ [chunk]\<rparr>))
      else Inr (callPullIfNeeded (b\<lparr>queue := queue b @ [chunk]\<rparr>)))"

definition desiredSize :: "bridge \<Rightarrow> int option" where
  "desiredSize b =
     (case sstate b of
        Errored e \<Rightarrow> None
      | Closed \<Rightarrow> Some 0
      | Readable \<Rightarrow> Some (1 - int (length (queue b))))"

text \<open>The three listeners that \<open>start\<close> registers on the request.\<close>

definition on_error :: "thrown \<Rightarrow> bridge \<Rightarrow> bridge" where
  "on_error error b = controller_error error (b\<lparr>cancelled := True\<rparr>)"

definition on_end :: "bridge \<Rightarrow> thrown + bridge" where
  "on_end b = (if cancelled b then Inr b else controller_close b)"

definition size_error :: "bridge \<Rightarrow> thrown" where
  "size_error b =
     Error [Txt ''request body size exceeded '',
            Txt (if truthy_num (content_length b) then [CHR 0x27] @ ''content-length'' @ [CHR 0x27]
                 else ''BODY_SIZE_LIMIT''),
            Txt '' of '', Num (length_limit b)]"

definition on_data :: "string \<Rightarrow> bridge \<Rightarrow> thrown + bridge" where
  "on_data chunk b =
     (if cancelled b then Inr b
      else
        let b1 = b\<lparr>size_read := size_read b + length chunk\<rparr> in
        if js_gt (Fin (of_nat (size_read b1))) (length_limit b1)
        then Inr (controller_error (size_error b1) (b1\<lparr>cancelled := True\<rparr>))
        else
          (case controller_enqueue chunk b1 of
             Inl e \<Rightarrow> Inl e
           | Inr b2 \<Rightarrow>
               (case desiredSize b2 of
                  None \<Rightarrow> Inr (b2\<lparr>paused := True\<rparr>)
                | Some d \<Rightarrow> if d \<le> 0 then Inr (b2\<lparr>paused := True\<rparr>) else Inr b2)))"

text \<open>
  The consumer's side, after the Streams Standard: a read takes the head of the queue or
  registers a read request, and the controller then calls \<open>pull\<close> if needed; a
  cancellation closes a readable stream, drops its queue and calls the source's \<open>cancel\<close>,
  and does nothing to a closed or errored one.
\<close>

definition consumer_read :: "bridge \<Rightarrow> bridge" where
  "consumer_read b =
     (if sstate b \<noteq> Readable then b
      else
        (case queue b of
           [] \<Rightarrow> callPullIfNeeded (b\<lparr>readRequests := readRequests b + 1\<rparr>)
         | c # cs \<Rightarrow>
             let b1 = b\<lparr>queue := cs, delivered := delivered b @ [c]\<rparr> in
             if closeRequested b1 \<and> cs = [] then b1\<lparr>sstate := Closed\<rparr>
             else callPullIfNeeded b1))"

definition consumer_cancel :: "thrown option \<Rightarrow> bridge \<Rightarrow> bridge" where
  "consumer_cancel reason b =
     (if sstate b \<noteq> Readable then b
      else cancel_source reason (b\<lparr>sstate := Closed, queue := [], readRequests := 0\<rparr>))"

text \<open>
  What can happen to the stream: the request emits \<open>data\<close>, \<open>end\<close> or \<open>error\<close>, the
  consumer reads or cancels.  A run stops at the first handler that throws.
\<close>

datatype event = Data string | End | Err thrown | Read | Cancel "thrown option"

fun step :: "event \<Rightarrow> bridge \<Rightarrow> thrown + bridge" where
  "step (Data chunk) b = on_data chunk b"
| "step End b = on_end b"
| "step (Err e) b = Inr (on_error e b)"
| "step Read b = Inr (consumer_read b)"
| "step (Cancel reason) b = Inr (consumer_cancel reason b)"

fun run :: "event list \<Rightarrow> bridge \<Rightarrow> thrown + bridge" where
  "run [] b = Inr b"
| "run (ev # evs) b = (case step ev b of Inl e \<Rightarrow> Inl e | Inr b' \<Rightarrow> run evs b')"

text \<open>
  The name the size error gives the limit, and the invariant of the stream: once
  \<open>cancelled\<close> is set the stream is no longer readable.
\<close>

definition limit_name :: "jsnum \<Rightarrow> string" where
  "limit_name cl =
     (if truthy_num cl then [CHR 0x27] @ ''content-length'' @ [CHR 0x27] else ''BODY_SIZE_LIMIT'')"

definition quiet :: "bridge \<Rightarrow> bool" where
  "quiet b = (cancelled b \<longrightarrow> sstate b \<noteq> Readable)"

subsection \<open>\<open>get_raw_body\<close>\<close>

text \<open>
  The three streams the adapter builds: the empty stream cancelled at once (request
  already destroyed), the bridge over the raw request in its initial state, and the
  one-chunk stream over a re-serialized body.
\<close>

datatype stream = CancelledEmpty | Raw bridge | Buffered string

text \<open>
  \<open>Number(h["content-length"])\<close> is the platform's conversion, the parameter \<open>toNumber\<close>.
  \<open>effective_length\<close> is the block guarded by \<open>if (body_size_limit)\<close>.
\<close>

definition effective_length :: "jsnum \<Rightarrow> jsnum option \<Rightarrow> thrown + jsnum" where
  "effective_length len body_size_limit =
     (case body_size_limit of
        None \<Rightarrow> Inr len
      | Some limit \<Rightarrow>
          if truthy_num limit then
            if \<not> truthy_num len then Inr limit
            else if js_gt len limit then
              Inl (Error [Txt ''Received content-length of '', Num len,
                          Txt '', but only accept up to '', Num limit, Txt '' bytes.''])
            else Inr len
          else Inr len)"

definition get_raw_body ::
  "(hval option \<Rightarrow> jsnum) \<Rightarrow> request \<Rightarrow> jsnum option \<Rightarrow> thrown + stream option" where
  "get_raw_body toNumber req body_size_limit =
     (let h = headers req in
      if \<not> truthy_header (h ''content-type'') then Inr None
      else
        let cl = toNumber (h ''content-length'') in
        if (httpVersionMajor req = 1 \<and> cl = NaN \<and> h ''transfer-encoding'' = None) \<or> cl = Fin 0
        then Inr None
        else
          (case effective_length cl body_size_limit of
             Inl e \<Rightarrow> Inl e
           | Inr len \<Rightarrow>
               if destroyed req then Inr (Some CancelledEmpty)
               else Inr (Some (Raw (new_bridge cl len)))))"

subsection \<open>\<open>constructRelativeUrl\<close>\<close>

text \<open>\<open>originalUrl.split("?")[0].at(-1)\<close>: the last character before the first \<open>?\<close>, if any.\<close>

definition originalPathEnding :: "string \<Rightarrow> char option" where
  "originalPathEnding orig =
     (let path = takeWhile (\<lambda>c. c \<noteq> CHR ''?'') orig
      in if path = [] then None else Some (last path))"

text \<open>The string behind a truthy \<open>baseUrl\<close> or \<open>originalUrl\<close>.\<close>

fun str_of :: "string option \<Rightarrow> string" where
  "str_of None = []"
| "str_of (Some s) = s"

definition constructRelativeUrl :: "request \<Rightarrow> string" where
  "constructRelativeUrl req =
     (if \<not> truthy_str (baseUrl req) \<or> \<not> truthy_str (originalUrl req)
      then (if truthy_str (baseUrl req) then str_of (baseUrl req) @ url req else url req)
      else
        let b = str_of (baseUrl req); orig = str_of (originalUrl req) in
        if b @ url req = orig then b @ url req
        else if originalPathEnding orig = Some CHR ''/'' then b @ url req else b)"

subsection \<open>\<open>getRequest\<close>\<close>

text \<open>
  The local \<open>body\<close> is \<open>undefined\<close>, \<open>null\<close> or a stream; the \<open>Request\<close> constructor reads
  both \<open>undefined\<close> and \<open>null\<close> as no body.  The adapted request is the record of what the
  constructor is given.
\<close>

datatype body_init = BodyUndefined | BodyNull | BodyStream stream

fun request_body :: "body_init \<Rightarrow> stream option" where
  "request_body BodyUndefined = None"
| "request_body BodyNull = None"
| "request_body (BodyStream s) = Some s"

record adapted_request =
  r_url :: string
  r_method :: string
  r_body :: "stream option"
  r_headers :: headers

definition choose_body ::
  "(hval option \<Rightarrow> jsnum) \<Rightarrow> (jsval \<Rightarrow> string) \<Rightarrow> jsnum option \<Rightarrow> request \<Rightarrow> thrown + body_init" where
  "choose_body toNumber stringify bodySizeLimit request =
     (let isFormUrlEncoded = hasFormUrlEncodedContentType (headers request) in
      if req_method request \<noteq> ''GET'' \<and> req_method request \<noteq> ''HEAD'' then
        if canReadRawBody request then
          (case get_raw_body toNumber request bodySizeLimit of
             Inl e \<Rightarrow> Inl e
           | Inr None \<Rightarrow> Inr BodyNull
           | Inr (Some s) \<Rightarrow> Inr (BodyStream s))
        else if body request \<noteq> Undefined then
          Inr (BodyStream (Buffered (serializeParsedBody stringify (body request) isFormUrlEncoded)))
        else Inr BodyUndefined
      else Inr BodyUndefined)"

definition getRequest ::
  "(hval option \<Rightarrow> jsnum) \<Rightarrow> (jsval \<Rightarrow> string) \<Rightarrow> string \<Rightarrow> jsnum option \<Rightarrow> request
     \<Rightarrow> thrown + adapted_request" where
  "getRequest toNumber stringify base bodySizeLimit request =
     (case choose_body toNumber stringify bodySizeLimit request of
        Inl e \<Rightarrow> Inl e
      | Inr b \<Rightarrow>
          Inr \<lparr> r_url = base @ constructRelativeUrl request, r_method = req_method request,
                r_body = request_body b, r_headers = headers request \<rparr>)"

subsection \<open>The server response and the response to send\<close>

text \<open>
  The \<open>Response\<close> to send: its status, the entries its header collection iterates over
  (lower-case names; each \<open>set-cookie\<close> value is an entry of its own) and its body,
  \<open>null\<close> or a stream.  A body stream is what a reader will get from it: its chunks in
  order, then the end of the stream or a failure; \<open>locked\<close> says a reader holds it already.
\<close>

record body_stream =
  locked :: bool
  chunks :: "string list"
  failure :: "thrown option"

record response =
  status :: nat
  header_entries :: "(string \<times> string) list"
  resp_body :: "body_stream option"

text \<open>\<open>response.headers.get(key)\<close>: the values under the name, joined by comma and space.\<close>

fun join_comma :: "string list \<Rightarrow> string" where
  "join_comma [] = []"
| "join_comma [x] = x"
| "join_comma (x # y # ys) = x @ '', '' @ join_comma (y # ys)"

definition headers_get :: "(string \<times> string) list \<Rightarrow> string \<Rightarrow> string" where
  "headers_get hs key = join_comma (map snd (filter (\<lambda>(k, v). k = key) hs))"

text \<open>
  One run of \<open>setResponse\<close> works on the server response and on the reader of the body.
  The state holds the header buffer, the status code, the \<open>destroyed\<close> flag and the
  listeners of the response; the calls made so far of \<open>writeHead\<close>, \<open>write\<close>, \<open>end\<close>,
  \<open>destroy\<close> and of the reader's \<open>cancel\<close>, in order; what the next calls of \<open>write\<close>
  will return (accepted once the list is used up); the reader (chunks still to come, the
  failure after them, closed, errored); and whether \<open>next\<close> is waiting for a read.
\<close>

datatype handler = CancelH | NextH

datatype call =
    WriteHead nat
  | Write string
  | ResEnd "tmpl option"
  | Destroy thrown
  | ReaderCancel "thrown option"

record out =
  res_headers :: "(string \<times> hval) list"
  statusCode :: nat
  res_destroyed :: bool
  close_listeners :: "handler list"
  error_listeners :: "handler list"
  drain_once :: "handler list"
  calls :: "call list"
  write_results :: "bool list"
  reader_rest :: "string list"
  reader_failure :: "thrown option"
  reader_closed :: bool
  reader_errored :: bool
  reading :: bool

text \<open>
  The methods of the response.  \<open>setHeader\<close> throws what the transport's validation,
  the parameter \<open>rejects\<close>, finds wrong with a name and value; the other methods are
  taken on a response whose head is not sent yet, where they do not throw.
\<close>

fun put_header :: "string \<Rightarrow> hval \<Rightarrow> (string \<times> hval) list \<Rightarrow> (string \<times> hval) list" where
  "put_header k v [] = [(k, v)]"
| "put_header k v ((k', v') # hs) = (if k' = k then (k, v) # hs else (k', v') # put_header k v hs)"

definition setHeader :: "(string \<Rightarrow> hval \<Rightarrow> thrown option) \<Rightarrow> string \<Rightarrow> hval \<Rightarrow> out \<Rightarrow> thrown + out" where
  "setHeader rejects k v s =
     (case rejects k v of
        Some e \<Rightarrow> Inl e
      | None \<Rightarrow> Inr (s\<lparr>res_headers := put_header k v (res_headers s)\<rparr>))"

definition getHeaderNames :: "out \<Rightarrow> string list" where
  "getHeaderNames s = map fst (res_headers s)"

definition removeHeader :: "string \<Rightarrow> out \<Rightarrow> out" where
  "removeHeader name s = s\<lparr>res_headers := filter (\<lambda>(k, v). k \<noteq> name) (res_headers s)\<rparr>"

definition writeHead :: "nat \<Rightarrow> out \<Rightarrow> out" where
  "writeHead code s = s\<lparr>statusCode := code, calls := calls s @ [WriteHead code]\<rparr>"

definition res_end :: "tmpl option \<Rightarrow> out \<Rightarrow> out" where
  "res_end data s = s\<lparr>calls := calls s @ [ResEnd data]\<rparr>"

definition res_write :: "string \<Rightarrow> out \<Rightarrow> bool \<times> out" where
  "res_write chunk s =
     (case write_results s of
        [] \<Rightarrow> (True, s\<lparr>calls := calls s @ [Write chunk]\<rparr>)
      | r # rs \<Rightarrow> (r, s\<lparr>calls := calls s @ [Write chunk], write_results := rs\<rparr>))"

definition res_destroy :: "thrown \<Rightarrow> out \<Rightarrow> out" where
  "res_destroy e s = s\<lparr>res_destroyed := True, calls := calls s @ [Destroy e]\<rparr>"

text \<open>\<open>off\<close> removes the listener's most recent registration, if there is one.\<close>

definition off :: "handler \<Rightarrow> handler list \<Rightarrow> handler list" where
  "off h hs = rev (remove1 h (rev hs))"

text \<open>
  The reader, after the Streams Standard.  \<open>read\<close> gives the next chunk, the end of the
  stream or the failure; after a cancellation it gives the end of the stream.  \<open>cancel\<close>
  closes the stream; on an errored stream its promise rejects, which the flag returned
  with the state says.
\<close>

datatype read_result = Chunk string | Done | Rejected thrown

definition getReader :: "body_stream \<Rightarrow> out \<Rightarrow> out" where
  "getReader b s =
     s\<lparr>reader_rest := chunks b, reader_failure := failure b, reader_closed := False,
       reader_errored := False\<rparr>"

definition reader_read :: "out \<Rightarrow> read_result \<times> out" where
  "reader_read s =
     (if reader_closed s then (Done, s)
      else
        (case reader_rest s of
           c # cs \<Rightarrow> (Chunk c, s\<lparr>reader_rest := cs\<rparr>)
         | [] \<Rightarrow>
             (case reader_failure s of
                None \<Rightarrow> (Done, s\<lparr>reader_closed := True\<rparr>)
              | Some e \<Rightarrow> (Rejected e, s\<lparr>reader_errored := True\<rparr>))))"

definition reader_cancel :: "thrown option \<Rightarrow> out \<Rightarrow> bool \<times> out" where
  "reader_cancel reason s =
     (let s1 = s\<lparr>calls := calls s @ [ReaderCancel reason]\<rparr> in
      if reader_errored s \<and> \<not> reader_closed s then (True, s1)
      else (False, s1\<lparr>reader_closed := True\<rparr>))"

subsection \<open>\<open>setResponse\<close>\<close>

text \<open>
  \<open>cancel\<close>, the listener of \<open>close\<close> and \<open>error\<close>.  The rejection of the reader's
  \<open>cancel\<close> is caught and dropped: only the state is kept.
\<close>

definition cancel :: "thrown option \<Rightarrow> out \<Rightarrow> out" where
  "cancel error s =
     (let s1 = s\<lparr>close_listeners := off CancelH (close_listeners s)\<rparr>;
          s2 = s1\<lparr>error_listeners := off CancelH (error_listeners s1)\<rparr>;
          s3 = snd (reader_cancel error s2)
      in case error of None \<Rightarrow> s3 | Some e \<Rightarrow> res_destroy e s3)"

text \<open>
  \<open>next\<close>.  A call of \<open>next\<close> asks the reader for a chunk and waits: \<open>next_start\<close>.  When
  the read settles the body of the loop runs once, \<open>next_iter\<close>: it leaves the loop
  (end of the stream, an exception, a refused write outside Lambda) or asks for the next
  chunk.  \<open>lambda\<close> is the test of the two environment variables.
\<close>

definition next_start :: "out \<Rightarrow> out" where
  "next_start s = s\<lparr>reading := True\<rparr>"

definition new_Error :: "thrown \<Rightarrow> thrown" where
  "new_Error error = (if instanceof_Error error then error else Error (String_of error))"

definition next_iter :: "bool \<Rightarrow> out \<Rightarrow> out" where
  "next_iter lambda s =
     (case reader_read s of
        (Done, s1) \<Rightarrow> s1\<lparr>reading := False\<rparr>
      | (Rejected error, s1) \<Rightarrow> cancel (Some (new_Error error)) (s1\<lparr>reading := False\<rparr>)
      | (Chunk v, s1) \<Rightarrow>
          (case res_write v s1 of
             (writeResult, s2) \<Rightarrow>
               if \<not> writeResult then
                 if lambda then s2
                 else s2\<lparr>drain_once := drain_once s2 @ [NextH], reading := False\<rparr>
               else res_end None s2))"

text \<open>The header-write phase: the \<open>for\<close> loop over the entries, stopped by the first throw.\<close>

definition header_arg :: "(string \<Rightarrow> string list) \<Rightarrow> (string \<times> string) list \<Rightarrow> string \<Rightarrow> string \<Rightarrow> hval" where
  "header_arg splitCookiesString hs key v =
     (if key = ''set-cookie'' then Multi (splitCookiesString (headers_get hs key)) else Single v)"

fun write_headers ::
  "(string \<Rightarrow> hval \<Rightarrow> thrown option) \<Rightarrow> (string \<Rightarrow> string list) \<Rightarrow> (string \<times> string) list
     \<Rightarrow> (string \<times> string) list \<Rightarrow> out \<Rightarrow> (thrown \<times> out) + out" where
  "write_headers rejects splitCookiesString hs [] s = Inr s"
| "write_headers rejects splitCookiesString hs ((key, v) # rest) s =
     (case setHeader rejects key (header_arg splitCookiesString hs key v) s of
        Inl error \<Rightarrow> Inl (error, s)
      | Inr s' \<Rightarrow> write_headers rejects splitCookiesString hs rest s')"

definition locked_message :: string where
  "locked_message =
     ''Fatal error: Response body is locked. '' @
     ''This can happen when the response was already read (for example through '' @
     [CHR 0x27] @ ''response.json()'' @ [CHR 0x27] @ '' or '' @
     [CHR 0x27] @ ''response.text()'' @ [CHR 0x27] @ '').''"

text \<open>
  \<open>setResponse\<close> up to the point where the asynchronous function first waits or returns.
\<close>

definition setResponse ::
  "(string \<Rightarrow> hval \<Rightarrow> thrown option) \<Rightarrow> (string \<Rightarrow> string list) \<Rightarrow> out \<Rightarrow> response \<Rightarrow> out" where
  "setResponse rejects splitCookiesString res response =
     (case write_headers rejects splitCookiesString (header_entries response)
             (header_entries response) res of
        Inl (error, s) \<Rightarrow>
          res_end (Some (String_of error))
            (writeHead 500 (fold removeHeader (getHeaderNames s) s))
      | Inr s \<Rightarrow>
          let s1 = writeHead (status response) (s\<lparr>statusCode := status response\<rparr>) in
          (case resp_body response of
             None \<Rightarrow> res_end None s1
           | Some b \<Rightarrow>
               if locked b then res_end (Some [Txt locked_message]) s1
               else
                 let s2 = getReader b s1 in
                 if res_destroyed s2 then snd (reader_cancel None s2)
                 else
                   next_start
                     (s2\<lparr>close_listeners := close_listeners s2 @ [CancelH],
                         error_listeners := error_listeners s2 @ [CancelH]\<rparr>)))"

text \<open>
  What happens after \<open>setResponse\<close> has returned: a pending read settles, or the response
  emits \<open>drain\<close>, \<open>close\<close> or \<open>error\<close>.  An emitter calls the listeners registered when it
  starts; a \<open>once\<close> listener is removed before it is called.
\<close>

datatype out_event = ReadSettles | Drain | Close | ErrorEv thrown

fun call_handler :: "thrown option \<Rightarrow> handler \<Rightarrow> out \<Rightarrow> out" where
  "call_handler arg CancelH s = cancel arg s"
| "call_handler arg NextH s = next_start s"

fun emit :: "bool \<Rightarrow> out_event \<Rightarrow> out \<Rightarrow> out" where
  "emit lambda ReadSettles s = (if reading s then next_iter lambda s else s)"
| "emit lambda Drain s = fold (call_handler None) (drain_once s) (s\<lparr>drain_once := []\<rparr>)"
| "emit lambda Close s = fold (call_handler None) (close_listeners s) s"
| "emit lambda (ErrorEv e) s = fold (call_handler (Some e)) (error_listeners s) s"

definition emit_all :: "bool \<Rightarrow> out_event list \<Rightarrow> out \<Rightarrow> out" where
  "emit_all lambda evs s = fold (emit lambda) evs s"

text \<open>The calls of \<open>end\<close>, of \<open>destroy\<close> and of the reader's \<open>cancel\<close> made so far.\<close>

fun is_end :: "call \<Rightarrow> bool" where
  "is_end (ResEnd d) = True"
| "is_end c = False"

fun is_destroy :: "call \<Rightarrow> bool" where
  "is_destroy (Destroy e) = True"
| "is_destroy c = False"

fun is_reader_cancel :: "call \<Rightarrow> bool" where
  "is_reader_cancel (ReaderCancel r) = True"
| "is_reader_cancel c = False"

definition end_calls :: "out \<Rightarrow> nat" where
  "end_calls s = length (filter is_end (calls s))"

definition destroy_calls_of :: "out \<Rightarrow> nat" where
  "destroy_calls_of s = length (filter is_destroy (calls s))"

definition reader_cancel_calls :: "out \<Rightarrow> nat" where
  "reader_cancel_calls s = length (filter is_reader_cancel (calls s))"

subsection \<open>Concrete inputs\<close>

text \<open>
  The theorems below are instantiated at these inputs.  \<open>Number_dec\<close> is \<open>Number\<close> on
  the header values an HTTP parser lets through: \<open>undefined\<close>, the empty string and
  strings of decimal digits; every other argument is read as \<open>NaN\<close>.
\<close>

definition Number_dec :: "hval option \<Rightarrow> jsnum" where
  "Number_dec h =
     (case h of
        None \<Rightarrow> NaN
      | Some (Single s) \<Rightarrow>
          if s = [] then Fin 0
          else if list_all (\<lambda>c. 48 \<le> (of_char c :: nat) \<and> (of_char c :: nat) \<le> 57) s
          then Fin (of_nat (foldl (\<lambda>n c. 10 * n + (of_char c - 48)) 0 s))
          else NaN
      | Some (Multi ss) \<Rightarrow> NaN)"

text \<open>A \<open>POST\<close> that declares 100 bytes and no content type, and the same with one.\<close>

definition upload :: request where
  "upload =
     \<lparr> headers = [''content-length'' \<mapsto> Single ''100''], req_method = ''POST'', url = ''/upload'',
       baseUrl = None, originalUrl = None, httpVersionMajor = 1, destroyed = False,
       readableEnded = False, readable = True, body = Undefined \<rparr>"

definition typed_upload :: request where
  "typed_upload = upload\<lparr>headers := (headers upload)(''content-type'' \<mapsto> Single ''text/plain'')\<rparr>"

text \<open>A \<open>GET\<close> seen by a sub-router: mount prefix, relative path, original path.\<close>

definition mounted :: "string option \<Rightarrow> string \<Rightarrow> string option \<Rightarrow> request" where
  "mounted prefix rel orig =
     \<lparr> headers = Map.empty, req_method = ''GET'', url = rel, baseUrl = prefix,
       originalUrl = orig, httpVersionMajor = 1, destroyed = False,
       readableEnded = False, readable = True, body = Undefined \<rparr>"

text \<open>An upload that declares three bytes, and a chunked one that declares no length.\<close>

definition small_upload :: request where
  "small_upload = typed_upload\<lparr>headers := (headers typed_upload)(''content-length'' \<mapsto> Single ''3'')\<rparr>"

definition unsized_upload :: request where
  "unsized_upload =
     typed_upload\<lparr>headers := (headers typed_upload)(''content-length'' := None,
                                                    ''transfer-encoding'' \<mapsto> Single ''chunked'')\<rparr>"

text \<open>The stream over \<open>small_upload\<close> after one read and the chunks \<open>ab\<close> and \<open>cd\<close>.\<close>

definition overrun :: bridge where
  "overrun =
     (new_bridge (Fin 3) (Fin 3))
       \<lparr>size_read := 4, cancelled := True,
        sstate := Errored (Error [Txt ''request body size exceeded '',
                                  Txt ([CHR 0x27] @ ''content-length'' @ [CHR 0x27]),
                                  Txt '' of '', Num (Fin 3)]),
        delivered := [''ab'']\<rparr>"

subsection \<open>The key/value pairs of a form body\<close>

text \<open>
  The pairs a plain object stands for as a form.  First as the specification words
  them: an array gives its key once per item, \<open>null\<close> the empty string, a nested plain
  object its JSON text, every other value its string coercion, which for \<open>undefined\<close>
  is the text \<open>undefined\<close>.
\<close>

fun claimed_values :: "(jsval \<Rightarrow> string) \<Rightarrow> jsval \<Rightarrow> string list" where
  "claimed_values stringify (Arr items) = concat (map (claimed_values stringify) items)"
| "claimed_values stringify Null = [[]]"
| "claimed_values stringify (PlainObj es) = [stringify (PlainObj es)]"
| "claimed_values stringify Undefined = [''undefined'']"
| "claimed_values stringify v = [coerce v]"

definition claimed_pairs :: "(jsval \<Rightarrow> string) \<Rightarrow> (string \<times> jsval) list \<Rightarrow> params" where
  "claimed_pairs stringify entries =
     concat (map (\<lambda>(key, v). map (Pair key) (claimed_values stringify v)) entries)"

text \<open>Then with the one change that \<open>undefined\<close> gives no pair at all.\<close>

fun form_values :: "(jsval \<Rightarrow> string) \<Rightarrow> jsval \<Rightarrow> string list" where
  "form_values stringify Undefined = []"
| "form_values stringify (Arr items) = concat (map (form_values stringify) items)"
| "form_values stringify Null = [[]]"
| "form_values stringify (PlainObj es) = [stringify (PlainObj es)]"
| "form_values stringify v = [coerce v]"

definition form_pairs :: "(jsval \<Rightarrow> string) \<Rightarrow> (string \<times> jsval) list \<Rightarrow> params" where
  "form_pairs stringify entries =
     concat (map (\<lambda>(key, v). map (Pair key) (form_values stringify v)) entries)"

text \<open>One serialized tuple, and a pre-parsed form body.\<close>

definition piece :: "string \<times> string \<Rightarrow> string" where
  "piece kv = urlencode (fst kv) @ CHR ''='' # urlencode (snd kv)"

definition profile :: "(string \<times> jsval) list" where
  "profile =
     [(''name'', Str ''a b''), (''tags'', Arr [Str ''x&y'', Null, Undefined, Arr [Other ''7'']]),
      (''opt'', Undefined), (''o'', PlainObj [(''k'', Other ''1'')])]"

subsection \<open>States, notifications and inputs of the outbound adapter\<close>

text \<open>
  A response is \<open>idle\<close> when nothing is registered on it and no read is pending.  The
  notifications that \<open>cancel\<close> listens to are \<open>close\<close> and \<open>error\<close>; only \<open>error\<close> carries
  an error.  A response to send is \<open>accepted\<close> when the transport rejects none of its
  headers.
\<close>

definition idle :: "out \<Rightarrow> bool" where
  "idle s = (close_listeners s = [] \<and> error_listeners s = [] \<and> drain_once s = [] \<and> \<not> reading s)"

fun notification :: "out_event \<Rightarrow> bool" where
  "notification Close = True"
| "notification (ErrorEv e) = True"
| "notification ev = False"

fun errors_of :: "out_event \<Rightarrow> nat" where
  "errors_of (ErrorEv e) = 1"
| "errors_of ev = 0"

definition accepted :: "(string \<Rightarrow> hval \<Rightarrow> thrown option) \<Rightarrow> (string \<Rightarrow> string list) \<Rightarrow> response \<Rightarrow> bool" where
  "accepted rejects splitCookiesString response =
     list_all (\<lambda>(k, v). rejects k (header_arg splitCookiesString (header_entries response) k v) = None)
       (header_entries response)"

text \<open>
  A server response on which an earlier middleware has set one header; a page whose body
  has the given chunks and ending; a reply without a body; a reply one of whose headers
  holds a line feed.  Two transports: one that accepts every header, one that rejects a
  line feed in a value.  \<open>one_cookie\<close> splits nothing.  Further down, a reply with two
  bad headers and a transport whose error names the header it rejects.
\<close>

definition fresh_res :: out where
  "fresh_res =
     \<lparr> res_headers = [(''x-powered-by'', Single ''Express'')], statusCode = 200,
       res_destroyed = False, close_listeners = [], error_listeners = [], drain_once = [],
       calls = [], write_results = [], reader_rest = [], reader_failure = None,
       reader_closed = False, reader_errored = False, reading = False \<rparr>"

definition page :: "string list \<Rightarrow> thrown option \<Rightarrow> response" where
  "page cs f =
     \<lparr> status = 200, header_entries = [(''content-type'', ''text/html'')],
       resp_body = Some \<lparr> locked = False, chunks = cs, failure = f \<rparr> \<rparr>"

definition empty_reply :: response where
  "empty_reply = \<lparr> status = 204, header_entries = [(''x-request-id'', ''7'')], resp_body = None \<rparr>"

definition bad_reply :: response where
  "bad_reply =
     \<lparr> status = 200,
       header_entries = [(''content-type'', ''text/html''), (''x-bad'', [CHR ''a'', CHR 0x0A, CHR ''b'']),
                         (''x-late'', ''1'')],
       resp_body = Some \<lparr> locked = False, chunks = [''a''], failure = None \<rparr> \<rparr>"

definition accept_all :: "string \<Rightarrow> hval \<Rightarrow> thrown option" where
  "accept_all k v = None"

definition no_newline :: "string \<Rightarrow> hval \<Rightarrow> thrown option" where
  "no_newline k v =
     (case v of
        Single s \<Rightarrow>
          if CHR 0x0A \<in> set s
          then Some (ErrorObj ''TypeError'' [Txt ''Invalid character in header content'']) else None
      | Multi ss \<Rightarrow> None)"

definition one_cookie :: "string \<Rightarrow> string list" where
  "one_cookie s = [s]"

definition boom :: thrown where
  "boom = Error [Txt ''boom'']"

definition two_bad :: response where
  "two_bad =
     \<lparr> status = 200,
       header_entries = [(''content-type'', ''text/html''), (''x-a'', [CHR ''a'', CHR 0x0A]),
                         (''x-b'', [CHR 0x0D, CHR ''b''])],
       resp_body = Some \<lparr> locked = False, chunks = [''a''], failure = None \<rparr> \<rparr>"

definition no_control :: "string \<Rightarrow> hval \<Rightarrow> thrown option" where
  "no_control k v =
     (case v of
        Single s \<Rightarrow>
          if CHR 0x0A \<in> set s \<or> CHR 0x0D \<in> set s
          then Some (ErrorObj ''TypeError'' [Txt ''Invalid character in header content ['', Txt k, Txt '']''])
          else None
      | Multi ss \<Rightarrow> None)"

text \<open>
  The two kinds of state a streaming response is in, given how often the reader's
  \<open>cancel\<close> and \<open>destroy\<close> had been called when \<open>setResponse\<close> began.  \<open>armed\<close>: \<open>cancel\<close>
  is registered on \<open>close\<close> and \<open>error\<close>, no cleanup has happened, the reader has not
  failed, and \<open>next\<close> waits for \<open>drain\<close> only while no read is pending.  \<open>released\<close>:
  \<open>cancel\<close> has run and removed itself, and no read can fail any more.
\<close>

definition armed :: "nat \<Rightarrow> nat \<Rightarrow> out \<Rightarrow> bool" where
  "armed rc d s =
     (close_listeners s = [CancelH] \<and> error_listeners s = [CancelH] \<and>
      reader_cancel_calls s = rc \<and> destroy_calls_of s = d \<and> \<not> reader_errored s \<and>
      (drain_once s = [] \<or> (drain_once s = [NextH] \<and> \<not> reading s)))"

definition released :: "nat \<Rightarrow> nat \<Rightarrow> out \<Rightarrow> bool" where
  "released rc d s =
     (close_listeners s = [] \<and> error_listeners s = [] \<and>
      reader_cancel_calls s = rc + 1 \<and> destroy_calls_of s \<le> d + 1 \<and>
      (drain_once s = [] \<or> drain_once s = [NextH]) \<and>
      (reader_closed s \<or> (\<not> reading s \<and> drain_once s = [])))"

section \<open>Properties of the inbound adapter\<close>

subsection \<open>No content type, no body\<close>

text \<open>
  Claim C10.  On the raw-stream path, a request whose headers hold no \<open>content-type\<close>
  gets \<open>null\<close> from \<open>get_raw_body\<close>: no stream is built, whatever \<open>content-length\<close>,
  \<open>transfer-encoding\<close> and size limit are; so when the raw stream is readable the adapted
  request has no body.
\<close>

theorem get_raw_body_without_content_type:
  assumes "headers req ''content-type'' = None"
  shows "get_raw_body toNumber req body_size_limit = Inr None \<and>
         (canReadRawBody req \<longrightarrow>
            (\<exists>r. getRequest toNumber stringify base body_size_limit req = Inr r \<and> r_body r = None))"
  using assms by (auto simp: get_raw_body_def getRequest_def choose_body_def)

theorem get_raw_body_without_content_type_witness:
  "headers upload ''content-type'' = None \<and>
   Number_dec (headers upload ''content-length'') = Fin 100 \<and>
   canReadRawBody upload \<and>
   get_raw_body Number_dec upload (Some (Fin 10)) = Inr None \<and>
   (\<exists>r. getRequest Number_dec (\<lambda>v. ''{}'') ''http://localhost'' (Some (Fin 10)) upload = Inr r \<and>
        r_body r = None)"
proof -
  have h: "headers upload ''content-type'' = None" by (simp add: upload_def)
  have c: "canReadRawBody upload" by (simp add: upload_def canReadRawBody_def)
  have n: "Number_dec (headers upload ''content-length'') = Fin 100"
    by (simp add: Number_dec_def upload_def)
  show ?thesis
    using h c n
      get_raw_body_without_content_type [OF h, of Number_dec "Some (Fin 10)" "\<lambda>v. ''{}''" "''http://localhost''"]
    by simp
qed

subsection \<open>Body-less methods\<close>

text \<open>
  Claim C4.  A request whose method is \<open>GET\<close> or \<open>HEAD\<close> is adapted without a throw and
  the adapted request has a null body, whatever its headers, its raw stream and its
  pre-parsed body are.
\<close>

theorem getRequest_bodyless_method:
  assumes "req_method req = ''GET'' \<or> req_method req = ''HEAD''"
  shows "\<exists>r. getRequest toNumber stringify base bodySizeLimit req = Inr r \<and> r_body r = None"
  using assms by (auto simp: getRequest_def choose_body_def)

theorem getRequest_bodyless_method_witness:
  "(req_method (typed_upload\<lparr>req_method := ''HEAD'', body := Str ''x''\<rparr>) = ''GET'' \<or>
    req_method (typed_upload\<lparr>req_method := ''HEAD'', body := Str ''x''\<rparr>) = ''HEAD'') \<and>
   (\<exists>r. getRequest Number_dec (\<lambda>v. ''{}'') ''http://localhost'' (Some (Fin 10))
           (typed_upload\<lparr>req_method := ''HEAD'', body := Str ''x''\<rparr>) = Inr r \<and> r_body r = None)"
proof -
  have m: "req_method (typed_upload\<lparr>req_method := ''HEAD'', body := Str ''x''\<rparr>) = ''GET'' \<or>
           req_method (typed_upload\<lparr>req_method := ''HEAD'', body := Str ''x''\<rparr>) = ''HEAD''"
    by simp
  show ?thesis
    using m getRequest_bodyless_method [OF m, of Number_dec "\<lambda>v. ''{}''" "''http://localhost''" "Some (Fin 10)"]
    by simp
qed

subsection \<open>A declared length above the limit\<close>

text \<open>
  Claim C2, as stated, fails: the request \<open>upload\<close> declares 100 bytes against a limit of
  10, is not body-less and is readable, yet \<open>get_raw_body\<close> returns \<open>null\<close> and
  \<open>getRequest\<close> an adapted request, because it has no content type.
\<close>

theorem payload_too_large_counterexample:
  "js_gt (Number_dec (headers upload ''content-length'')) (Fin 10) \<and>
   req_method upload \<noteq> ''GET'' \<and> req_method upload \<noteq> ''HEAD'' \<and> canReadRawBody upload \<and>
   get_raw_body Number_dec upload (Some (Fin 10)) = Inr None \<and>
   getRequest Number_dec (\<lambda>v. ''{}'') ''http://localhost'' (Some (Fin 10)) upload =
     Inr \<lparr> r_url = ''http://localhost/upload'', r_method = ''POST'', r_body = None,
           r_headers = headers upload \<rparr>"
  by (simp add: Number_dec_def upload_def canReadRawBody_def get_raw_body_def getRequest_def
      choose_body_def constructRelativeUrl_def)

lemma truthy_num_gt: "js_gt a b \<Longrightarrow> a \<noteq> Fin 0 \<Longrightarrow> truthy_num a"
  by (cases a) auto

text \<open>
  Claim C2, amended.  When the request has a non-empty \<open>content-type\<close> and its declared
  length is not zero and exceeds a size limit that is not zero, \<open>get_raw_body\<close> throws
  the error naming both numbers and returns no stream; \<open>getRequest\<close> throws the same
  error when the method is neither \<open>GET\<close> nor \<open>HEAD\<close> and the raw stream is readable.
\<close>

theorem get_raw_body_payload_too_large:
  assumes "truthy_header (headers req ''content-type'')"
    and "js_gt (toNumber (headers req ''content-length'')) limit"
    and "truthy_num limit"
    and "toNumber (headers req ''content-length'') \<noteq> Fin 0"
  shows "get_raw_body toNumber req (Some limit) =
           Inl (Error [Txt ''Received content-length of '', Num (toNumber (headers req ''content-length'')),
                       Txt '', but only accept up to '', Num limit, Txt '' bytes.'']) \<and>
         (req_method req \<noteq> ''GET'' \<and> req_method req \<noteq> ''HEAD'' \<and> canReadRawBody req \<longrightarrow>
            getRequest toNumber stringify base (Some limit) req =
              Inl (Error [Txt ''Received content-length of '', Num (toNumber (headers req ''content-length'')),
                          Txt '', but only accept up to '', Num limit, Txt '' bytes.'']))"
proof -
  let ?cl = "toNumber (headers req ''content-length'')"
  have t: "truthy_num ?cl" using assms(2,4) by (rule truthy_num_gt)
  have n: "?cl \<noteq> NaN" using assms(2) by (cases ?cl) auto
  have e: "effective_length ?cl (Some limit) =
      Inl (Error [Txt ''Received content-length of '', Num ?cl,
                  Txt '', but only accept up to '', Num limit, Txt '' bytes.''])"
    using assms(2,3) t by (simp add: effective_length_def)
  have g: "get_raw_body toNumber req (Some limit) =
      Inl (Error [Txt ''Received content-length of '', Num ?cl,
                  Txt '', but only accept up to '', Num limit, Txt '' bytes.''])"
    using assms(1,4) n e by (simp add: get_raw_body_def Let_def)
  show ?thesis using g by (simp add: getRequest_def choose_body_def)
qed

theorem get_raw_body_payload_too_large_witness:
  "truthy_header (headers typed_upload ''content-type'') \<and>
   js_gt (Number_dec (headers typed_upload ''content-length'')) (Fin 10) \<and>
   truthy_num (Fin 10) \<and>
   req_method typed_upload \<noteq> ''GET'' \<and> req_method typed_upload \<noteq> ''HEAD'' \<and> canReadRawBody typed_upload \<and>
   get_raw_body Number_dec typed_upload (Some (Fin 10)) =
     Inl (Error [Txt ''Received content-length of '', Num (Fin 100),
                 Txt '', but only accept up to '', Num (Fin 10), Txt '' bytes.'']) \<and>
   getRequest Number_dec (\<lambda>v. ''{}'') ''http://localhost'' (Some (Fin 10)) typed_upload =
     Inl (Error [Txt ''Received content-length of '', Num (Fin 100),
                 Txt '', but only accept up to '', Num (Fin 10), Txt '' bytes.''])"
proof -
  have n: "Number_dec (headers typed_upload ''content-length'') = Fin 100"
    by (simp add: Number_dec_def typed_upload_def upload_def)
  have a: "truthy_header (headers typed_upload ''content-type'')"
    by (simp add: typed_upload_def)
  have b: "js_gt (Number_dec (headers typed_upload ''content-length'')) (Fin 10)"
    by (simp add: n)
  have c: "truthy_num (Fin 10)" by simp
  have d: "Number_dec (headers typed_upload ''content-length'') \<noteq> Fin 0"
    by (simp add: n)
  have m: "req_method typed_upload \<noteq> ''GET'' \<and> req_method typed_upload \<noteq> ''HEAD'' \<and> canReadRawBody typed_upload"
    by (simp add: typed_upload_def upload_def canReadRawBody_def)
  show ?thesis
    using a b c m n
      get_raw_body_payload_too_large [where req = typed_upload and toNumber = Number_dec
          and limit = "Fin 10" and stringify = "\<lambda>v. ''{}''" and base = "''http://localhost''", OF a b c d]
    by simp
qed

subsection \<open>URL reconstruction\<close>

text \<open>
  Claim C5.  \<open>constructRelativeUrl\<close> follows the three cases.  Without a mount prefix the
  result is the relative path, and with a prefix but no original path it is prefix and
  relative path joined.  With both, the joined path is the result when it equals the
  original path; otherwise it is the result only if the original path, cut at its first
  \<open>?\<close>, ends in \<open>/\<close>, and the bare prefix is the result if it does not.
\<close>

theorem constructRelativeUrl_cases:
  "(\<not> truthy_str (baseUrl req) \<longrightarrow> constructRelativeUrl req = url req) \<and>
   (truthy_str (baseUrl req) \<and> \<not> truthy_str (originalUrl req) \<longrightarrow>
      constructRelativeUrl req = str_of (baseUrl req) @ url req) \<and>
   (baseUrl req = Some prefix \<and> originalUrl req = Some orig \<and> prefix \<noteq> [] \<and> orig \<noteq> [] \<longrightarrow>
      constructRelativeUrl req =
        (if prefix @ url req = orig then prefix @ url req
         else if takeWhile (\<lambda>c. c \<noteq> CHR ''?'') orig \<noteq> [] \<and>
                 last (takeWhile (\<lambda>c. c \<noteq> CHR ''?'') orig) = CHR ''/''
           then prefix @ url req
         else prefix))"
  by (auto simp: constructRelativeUrl_def originalPathEnding_def Let_def)

theorem constructRelativeUrl_cases_witness:
  "constructRelativeUrl (mounted (Some ''/api'') ''/users'' (Some ''/api/users'')) = ''/api/users'' \<and>
   constructRelativeUrl (mounted (Some ''/api'') ''/'' (Some ''/api'')) = ''/api'' \<and>
   constructRelativeUrl (mounted (Some ''/api'') ''/'' (Some ''/api/?q=1'')) = ''/api/'' \<and>
   constructRelativeUrl (mounted (Some ''/api'') ''/'' (Some ''/api?q=a/'')) = ''/api'' \<and>
   constructRelativeUrl (mounted (Some ''/api'') ''/users'' None) = ''/api/users'' \<and>
   constructRelativeUrl (mounted None ''/users'' (Some ''/api/users'')) = ''/users''"
  using
    constructRelativeUrl_cases [of "mounted (Some ''/api'') ''/users'' (Some ''/api/users'')" "''/api''" "''/api/users''"]
    constructRelativeUrl_cases [of "mounted (Some ''/api'') ''/'' (Some ''/api'')" "''/api''" "''/api''"]
    constructRelativeUrl_cases [of "mounted (Some ''/api'') ''/'' (Some ''/api/?q=1'')" "''/api''" "''/api/?q=1''"]
    constructRelativeUrl_cases [of "mounted (Some ''/api'') ''/'' (Some ''/api?q=a/'')" "''/api''" "''/api?q=a/''"]
    constructRelativeUrl_cases [of "mounted (Some ''/api'') ''/users'' None" "''x''" "''x''"]
    constructRelativeUrl_cases [of "mounted None ''/users'' (Some ''/api/users'')" "''x''" "''x''"]
  by (simp add: mounted_def)

subsection \<open>The body stream: invariant and fixed fields\<close>

lemma quiet_new: "quiet (new_bridge cl len)"
  by (simp add: quiet_def new_bridge_def)

lemma quiet_on_error: "quiet (on_error e b)"
  by (simp add: quiet_def on_error_def controller_error_def)

lemma quiet_on_end: "quiet b \<Longrightarrow> on_end b = Inr b' \<Longrightarrow> quiet b'"
  by (auto simp: quiet_def on_end_def controller_close_def canCloseOrEnqueue_def split: if_splits)

lemma quiet_on_data: "quiet b \<Longrightarrow> on_data chunk b = Inr b' \<Longrightarrow> quiet b'"
  by (auto simp: quiet_def on_data_def controller_error_def controller_enqueue_def Let_def
      canCloseOrEnqueue_def callPullIfNeeded_def pull_def split: if_splits sum.splits option.splits)

lemma quiet_consumer_read: "quiet b \<Longrightarrow> quiet (consumer_read b)"
  by (auto simp: quiet_def consumer_read_def callPullIfNeeded_def pull_def Let_def split: list.splits)

lemma quiet_consumer_cancel: "quiet b \<Longrightarrow> quiet (consumer_cancel r b)"
  by (auto simp: quiet_def consumer_cancel_def cancel_source_def)

lemma quiet_step: "quiet b \<Longrightarrow> step ev b = Inr b' \<Longrightarrow> quiet b'"
  by (cases ev)
    (auto intro: quiet_on_error quiet_on_end quiet_on_data quiet_consumer_read quiet_consumer_cancel)

lemma quiet_run: "quiet b \<Longrightarrow> run evs b = Inr b' \<Longrightarrow> quiet b'"
proof (induction evs arbitrary: b)
  case Nil
  then show ?case by simp
next
  case (Cons ev evs)
  then show ?case by (auto split: sum.splits dest: quiet_step)
qed

lemma on_error_noop: "cancelled b \<Longrightarrow> sstate b \<noteq> Readable \<Longrightarrow> on_error e b = b"
  by (simp add: on_error_def controller_error_def)

lemma step_fixed:
  "step ev b = Inr b' \<Longrightarrow> content_length b' = content_length b \<and> length_limit b' = length_limit b"
  by (cases ev) (auto simp: on_data_def on_end_def on_error_def controller_error_def
      controller_close_def controller_enqueue_def consumer_read_def consumer_cancel_def
      cancel_source_def callPullIfNeeded_def pull_def Let_def
      split: if_splits sum.splits option.splits list.splits)

lemma run_fixed:
  "run evs b = Inr b' \<Longrightarrow> content_length b' = content_length b \<and> length_limit b' = length_limit b"
proof (induction evs arbitrary: b)
  case Nil
  then show ?case by simp
next
  case (Cons ev evs)
  then show ?case by (auto split: sum.splits dest: step_fixed)
qed

lemma get_raw_body_bridge:
  assumes "get_raw_body toNumber req limit = Inr (Some (Raw b0))"
  shows "\<exists>len. b0 = new_bridge (toNumber (headers req ''content-length'')) len \<and>
           toNumber (headers req ''content-length'') \<noteq> Fin 0 \<and>
           effective_length (toNumber (headers req ''content-length'')) limit = Inr len"
  using assms by (auto simp: get_raw_body_def Let_def split: if_splits sum.splits)

lemma effective_length_source:
  assumes "effective_length cl limit = Inr len" and "js_gt (Fin m) len" and "cl \<noteq> Fin 0"
  shows "if truthy_num cl then len = cl else limit = Some len"
  using assms by (cases cl) (auto simp: effective_length_def split: option.splits if_splits)

lemma on_data_overflow:
  assumes "\<not> cancelled b" and "sstate b = Readable"
    and "js_gt (Fin (of_nat (size_read b + length chunk))) (length_limit b)"
  shows "on_data chunk b =
           Inr (b\<lparr>size_read := size_read b + length chunk, cancelled := True,
                  sstate := Errored (Error [Txt ''request body size exceeded '',
                                            Txt (limit_name (content_length b)),
                                            Txt '' of '', Num (length_limit b)]),
                  queue := [], readRequests := 0\<rparr>)"
  using assms by (simp add: on_data_def controller_error_def size_error_def limit_name_def Let_def)

lemma small_number: "Number_dec (headers small_upload ''content-length'') = Fin 3"
  by (simp add: Number_dec_def small_upload_def)

lemma small_raw:
  "get_raw_body Number_dec small_upload None = Inr (Some (Raw (new_bridge (Fin 3) (Fin 3))))"
  by (simp add: get_raw_body_def small_number Let_def effective_length_def)
    (simp add: small_upload_def typed_upload_def upload_def)

lemma small_run:
  "run [Read, Data ''ab''] (new_bridge (Fin 3) (Fin 3)) =
     Inr ((new_bridge (Fin 3) (Fin 3))\<lparr>size_read := 2, delivered := [''ab'']\<rparr>)"
  by (simp add: new_bridge_def consumer_read_def callPullIfNeeded_def canCloseOrEnqueue_def
      pull_def on_data_def controller_enqueue_def desiredSize_def Let_def)

subsection \<open>Exceeding the limit while streaming\<close>

text \<open>
  Claim C3, as stated, fails in its last part.  The stream over \<open>small_upload\<close> (three
  bytes declared) errors on its fourth byte, but the request is neither destroyed nor
  paused by that: \<open>destroy\<close> has not been called, the request keeps flowing, and a later
  \<open>data\<close> notification still reaches the listener, which ignores it.  Only a
  cancellation by the consumer destroys the request.
\<close>

theorem size_exceeded_source_not_cancelled_counterexample:
  "get_raw_body Number_dec small_upload None = Inr (Some (Raw (new_bridge (Fin 3) (Fin 3)))) \<and>
   run [Read, Data ''ab'', Data ''cd''] (new_bridge (Fin 3) (Fin 3)) = Inr overrun \<and>
   destroy_calls overrun = [] \<and> \<not> paused overrun \<and>
   run [Read, Data ''ab'', Data ''cd'', Data ''ef''] (new_bridge (Fin 3) (Fin 3)) = Inr overrun \<and>
   destroy_calls (consumer_cancel None (new_bridge (Fin 3) (Fin 3))) = [None]"
  by (simp add: small_raw)
    (simp add: new_bridge_def consumer_read_def callPullIfNeeded_def canCloseOrEnqueue_def
      pull_def on_data_def controller_enqueue_def desiredSize_def Let_def overrun_def
      controller_error_def size_error_def consumer_cancel_def cancel_source_def)

text \<open>
  Claim C3, amended.  Take a stream that \<open>get_raw_body\<close> returned, in any state it can
  reach where it is readable and not cancelled, and a chunk that takes the byte count
  above the effective limit.  The \<open>data\<close> listener then errors the stream: the consumer
  finds the size error, whose message names \<open>'content-length'\<close> when the limit is the
  declared length and \<open>BODY_SIZE_LIMIT\<close> when it is the configured ceiling; the chunk is
  not handed on and the queue is dropped.  The listener sets \<open>cancelled\<close>, so that every
  later \<open>data\<close>, \<open>end\<close> and \<open>error\<close> notification leaves the stream as it is.  The request
  itself is left alone: no call of \<open>destroy\<close>, no change of \<open>paused\<close>.
\<close>

theorem body_size_exceeded:
  assumes "get_raw_body toNumber req limit = Inr (Some (Raw b0))"
    and "run evs b0 = Inr b"
    and "\<not> cancelled b" and "sstate b = Readable"
    and "js_gt (Fin (of_nat (size_read b + length chunk))) (length_limit b)"
  shows "\<exists>b'. on_data chunk b = Inr b' \<and> cancelled b' \<and> queue b' = [] \<and>
           delivered b' = delivered b \<and>
           sstate b' = Errored (Error [Txt ''request body size exceeded '',
                                       Txt (limit_name (toNumber (headers req ''content-length''))),
                                       Txt '' of '', Num (length_limit b)]) \<and>
           (if truthy_num (toNumber (headers req ''content-length''))
            then length_limit b = toNumber (headers req ''content-length'')
            else limit = Some (length_limit b)) \<and>
           destroy_calls b' = destroy_calls b \<and> paused b' = paused b \<and>
           (\<forall>c. on_data c b' = Inr b') \<and> on_end b' = Inr b' \<and> (\<forall>e. on_error e b' = b')"
proof -
  let ?cl = "toNumber (headers req ''content-length'')"
  obtain len where b0: "b0 = new_bridge ?cl len" and nz: "?cl \<noteq> Fin 0"
    and eff: "effective_length ?cl limit = Inr len"
    using get_raw_body_bridge [OF assms(1)] by blast
  have fixed: "content_length b = ?cl \<and> length_limit b = len"
    using run_fixed [OF assms(2)] b0 by (simp add: new_bridge_def)
  have src: "if truthy_num ?cl then length_limit b = ?cl else limit = Some (length_limit b)"
    using effective_length_source [OF eff _ nz] assms(5) fixed by simp
  let ?b' = "b\<lparr>size_read := size_read b + length chunk, cancelled := True,
                  sstate := Errored (Error [Txt ''request body size exceeded '',
                                            Txt (limit_name (content_length b)),
                                            Txt '' of '', Num (length_limit b)]),
                  queue := [], readRequests := 0\<rparr>"
  have step: "on_data chunk b = Inr ?b'"
    using assms(3,4,5) by (rule on_data_overflow)
  have after: "(\<forall>c. on_data c ?b' = Inr ?b') \<and> on_end ?b' = Inr ?b' \<and> (\<forall>e. on_error e ?b' = ?b')"
    by (simp add: on_data_def on_end_def on_error_def controller_error_def)
  show ?thesis
    using step after src fixed by (intro exI [of _ ?b']) simp
qed

theorem body_size_exceeded_witness:
  "get_raw_body Number_dec small_upload None = Inr (Some (Raw (new_bridge (Fin 3) (Fin 3)))) \<and>
   run [Read, Data ''ab''] (new_bridge (Fin 3) (Fin 3)) =
     Inr ((new_bridge (Fin 3) (Fin 3))\<lparr>size_read := 2, delivered := [''ab'']\<rparr>) \<and>
   on_data ''cd'' ((new_bridge (Fin 3) (Fin 3))\<lparr>size_read := 2, delivered := [''ab'']\<rparr>) = Inr overrun \<and>
   (\<exists>b'. on_data ''cd'' ((new_bridge (Fin 3) (Fin 3))\<lparr>size_read := 2, delivered := [''ab'']\<rparr>) = Inr b' \<and>
      cancelled b' \<and>
      sstate b' = Errored (Error [Txt ''request body size exceeded '',
                                  Txt ([CHR 0x27] @ ''content-length'' @ [CHR 0x27]),
                                  Txt '' of '', Num (Fin 3)]) \<and>
      (\<forall>c. on_data c b' = Inr b') \<and> on_end b' = Inr b' \<and> (\<forall>e. on_error e b' = b')) \<and>
   get_raw_body Number_dec unsized_upload (Some (Fin 3)) = Inr (Some (Raw (new_bridge NaN (Fin 3)))) \<and>
   on_data ''abcd'' (new_bridge NaN (Fin 3)) =
     Inr ((new_bridge NaN (Fin 3))
            \<lparr>size_read := 4, cancelled := True,
             sstate := Errored (Error [Txt ''request body size exceeded '', Txt ''BODY_SIZE_LIMIT'',
                                       Txt '' of '', Num (Fin 3)])\<rparr>)"
proof -
  let ?b = "(new_bridge (Fin 3) (Fin 3))\<lparr>size_read := 2, delivered := [''ab'']\<rparr>"
  have c: "\<not> cancelled ?b" by (simp add: new_bridge_def)
  have r: "sstate ?b = Readable" by (simp add: new_bridge_def)
  have g: "js_gt (Fin (of_nat (size_read ?b + length ''cd''))) (length_limit ?b)"
    by (simp add: new_bridge_def)
  have o: "on_data ''cd'' ?b = Inr overrun"
    by (simp add: new_bridge_def on_data_def Let_def overrun_def controller_error_def size_error_def)
  have u: "get_raw_body Number_dec unsized_upload (Some (Fin 3)) = Inr (Some (Raw (new_bridge NaN (Fin 3))))"
    by (simp add: get_raw_body_def Number_dec_def unsized_upload_def typed_upload_def upload_def
        effective_length_def)
  have v: "on_data ''abcd'' (new_bridge NaN (Fin 3)) =
     Inr ((new_bridge NaN (Fin 3))
            \<lparr>size_read := 4, cancelled := True,
             sstate := Errored (Error [Txt ''request body size exceeded '', Txt ''BODY_SIZE_LIMIT'',
                                       Txt '' of '', Num (Fin 3)])\<rparr>)"
    by (simp add: new_bridge_def on_data_def Let_def controller_error_def size_error_def)
  show ?thesis
    using small_run o u v
      body_size_exceeded [where toNumber = Number_dec and req = small_upload and limit = None
        and evs = "[Read, Data ''ab'']" and chunk = "''cd''",
        OF small_raw small_run c r g]
    by (simp add: small_raw small_number limit_name_def)
qed

subsection \<open>Error and end of the request\<close>

text \<open>
  Claim C9.  In every state the stream can reach: if it has been cancelled, an \<open>error\<close>
  and an \<open>end\<close> notification of the request both leave it exactly as it is, so the
  consumer is not signalled again; if it has not and is readable, an \<open>error\<close> errors it
  with that error, and an \<open>end\<close> (no close requested before) closes it: at once when
  the queue is empty, after the queued chunks otherwise.
\<close>

theorem source_error_and_end:
  assumes "run evs (new_bridge cl len) = Inr b"
  shows "(cancelled b \<longrightarrow> on_error e b = b \<and> on_end b = Inr b) \<and>
         (\<not> cancelled b \<and> sstate b = Readable \<longrightarrow>
            sstate (on_error e b) = Errored e \<and> queue (on_error e b) = [] \<and>
            delivered (on_error e b) = delivered b) \<and>
         (\<not> cancelled b \<and> sstate b = Readable \<and> \<not> closeRequested b \<longrightarrow>
            on_end b = Inr (if queue b = []
                            then b\<lparr>closeRequested := True, sstate := Closed, readRequests := 0\<rparr>
                            else b\<lparr>closeRequested := True\<rparr>))"
proof -
  have q: "quiet b" using quiet_new assms by (rule quiet_run)
  have 1: "cancelled b \<longrightarrow> on_error e b = b \<and> on_end b = Inr b"
    using q by (simp add: quiet_def on_error_noop on_end_def)
  have 2: "\<not> cancelled b \<and> sstate b = Readable \<longrightarrow>
            sstate (on_error e b) = Errored e \<and> queue (on_error e b) = [] \<and>
            delivered (on_error e b) = delivered b"
    by (simp add: on_error_def controller_error_def)
  have 3: "\<not> cancelled b \<and> sstate b = Readable \<and> \<not> closeRequested b \<longrightarrow>
            on_end b = Inr (if queue b = []
                            then b\<lparr>closeRequested := True, sstate := Closed, readRequests := 0\<rparr>
                            else b\<lparr>closeRequested := True\<rparr>)"
    by (simp add: on_end_def controller_close_def canCloseOrEnqueue_def)
  show ?thesis using 1 2 3 by blast
qed

theorem source_error_and_end_witness:
  "run [Read, Data ''ab'', Data ''cd''] (new_bridge (Fin 3) (Fin 3)) = Inr overrun \<and>
   cancelled overrun \<and>
   on_error (Value [Txt ''aborted'']) overrun = overrun \<and> on_end overrun = Inr overrun \<and>
   run [] (new_bridge (Fin 3) (Fin 3)) = Inr (new_bridge (Fin 3) (Fin 3)) \<and>
   sstate (on_error (Value [Txt ''aborted'']) (new_bridge (Fin 3) (Fin 3))) = Errored (Value [Txt ''aborted'']) \<and>
   on_end (new_bridge (Fin 3) (Fin 3)) =
     Inr ((new_bridge (Fin 3) (Fin 3))\<lparr>closeRequested := True, sstate := Closed, readRequests := 0\<rparr>)"
proof -
  have r1: "run [Read, Data ''ab'', Data ''cd''] (new_bridge (Fin 3) (Fin 3)) = Inr overrun"
    by (simp add: new_bridge_def consumer_read_def callPullIfNeeded_def canCloseOrEnqueue_def
      pull_def on_data_def controller_enqueue_def desiredSize_def Let_def overrun_def
      controller_error_def size_error_def)
  have r2: "run [] (new_bridge (Fin 3) (Fin 3)) = Inr (new_bridge (Fin 3) (Fin 3))" by simp
  have c1: "cancelled overrun" by (simp add: overrun_def)
  have c2: "\<not> cancelled (new_bridge (Fin 3) (Fin 3)) \<and> sstate (new_bridge (Fin 3) (Fin 3)) = Readable \<and>
            \<not> closeRequested (new_bridge (Fin 3) (Fin 3)) \<and> queue (new_bridge (Fin 3) (Fin 3)) = []"
    by (simp add: new_bridge_def)
  show ?thesis
    using r1 r2 c1 c2
      source_error_and_end [OF r1, of "Value [Txt ''aborted'']"]
      source_error_and_end [OF r2, of "Value [Txt ''aborted'']"]
    by simp
qed

section \<open>Re-serializing a form body\<close>

subsection \<open>The serializer and the parser are inverse\<close>

lemma of_char_less: "(of_char c :: nat) < 256"
proof -
  have "(of_char c :: nat) mod 256 = of_char c" by simp
  then show ?thesis by (metis mod_less_divisor zero_less_numeral)
qed

lemma of_char_div: "(of_char c :: nat) div 16 < 16"
  using of_char_less [of c] by arith

lemma hexval_hexdigit: "d < 16 \<Longrightarrow> hexval (hexdigit d) = d"
  by (simp add: hexval_def hexdigit_def Let_def)

lemma is_hex_hexdigit: "d < 16 \<Longrightarrow> is_hex (hexdigit d)"
  by (simp add: is_hex_def hexdigit_def Let_def)

lemma hexdigit_code: "d < 16 \<Longrightarrow> (of_char (hexdigit d) :: nat) = (if d < 10 then 48 + d else 55 + d)"
  by (simp add: hexdigit_def)

lemma safe_hexdigit: "d < 16 \<Longrightarrow> urlencoded_safe (hexdigit d)"
  by (simp add: urlencoded_safe_def hexdigit_def Let_def)

lemma safe_not_special:
  "urlencoded_safe x \<Longrightarrow> x \<noteq> CHR ''+'' \<and> x \<noteq> CHR ''%'' \<and> x \<noteq> CHR ''&'' \<and> x \<noteq> CHR ''=''"
  by (auto simp: urlencoded_safe_def Let_def)

lemma encode_byte_chars:
  "x \<in> set (encode_byte c) \<Longrightarrow> urlencoded_safe x \<or> x = CHR ''+'' \<or> x = CHR ''%''"
proof -
  have d: "(of_char c :: nat) div 16 < 16" by (rule of_char_div)
  have m: "(of_char c :: nat) mod 16 < 16" by simp
  assume "x \<in> set (encode_byte c)"
  then show ?thesis
    using safe_hexdigit [OF d] safe_hexdigit [OF m]
    by (auto simp: encode_byte_def split: if_splits)
qed

lemma urlencode_chars:
  "x \<in> set (urlencode s) \<Longrightarrow> x \<noteq> CHR ''&'' \<and> x \<noteq> CHR ''=''"
  using encode_byte_chars safe_not_special by (fastforce simp: urlencode_def)

lemma percent_decode_plain: "c \<noteq> CHR ''%'' \<Longrightarrow> percent_decode (c # t) = c # percent_decode t"
  by (simp split: list.splits)

lemma percent_decode_escape:
  "is_hex h1 \<Longrightarrow> is_hex h2 \<Longrightarrow>
   percent_decode (CHR ''%'' # h1 # h2 # t) = char_of (16 * hexval h1 + hexval h2) # percent_decode t"
  by simp

lemma decode_encode_byte:
  "percent_decode (plus_to_space (encode_byte c) @ t) = c # percent_decode t"
proof -
  let ?n = "of_char c :: nat"
  have d: "?n div 16 < 16" by (rule of_char_div)
  have m: "?n mod 16 < 16" by simp
  show ?thesis
  proof (cases "urlencoded_safe c")
    case True
    then show ?thesis
      using safe_not_special [OF True]
      by (simp add: encode_byte_def plus_to_space_def percent_decode_plain del: percent_decode.simps)
  next
    case False
    show ?thesis
    proof (cases "c = CHR '' ''")
      case True
      then show ?thesis using False
        by (simp add: encode_byte_def plus_to_space_def percent_decode_plain del: percent_decode.simps)
    next
      case sp: False
      have p1: "hexdigit (?n div 16) \<noteq> CHR ''+''" and p2: "hexdigit (?n mod 16) \<noteq> CHR ''+''"
        using safe_not_special [OF safe_hexdigit [OF d]] safe_not_special [OF safe_hexdigit [OF m]]
        by simp_all
      have v: "char_of (16 * hexval (hexdigit (?n div 16)) + hexval (hexdigit (?n mod 16))) = c"
        by (simp add: hexval_hexdigit [OF d] hexval_hexdigit [OF m])
      show ?thesis
        using False sp p1 p2 v is_hex_hexdigit [OF d] is_hex_hexdigit [OF m]
        by (simp add: encode_byte_def plus_to_space_def percent_decode_escape del: percent_decode.simps)
    qed
  qed
qed

lemma decode_urlencode: "percent_decode (plus_to_space (urlencode s)) = s"
proof (induction s)
  case Nil
  then show ?case by (simp add: urlencode_def plus_to_space_def)
next
  case (Cons c s)
  have "plus_to_space (urlencode (c # s)) = plus_to_space (encode_byte c) @ plus_to_space (urlencode s)"
    by (simp add: urlencode_def plus_to_space_def)
  then show ?case using Cons decode_encode_byte by simp
qed

lemma split_on_piece:
  "d \<notin> set p \<Longrightarrow> split_on d (p @ d # rest) = p # split_on d rest"
  by (induction p) auto

lemma split_on_last: "d \<notin> set p \<Longrightarrow> split_on d p = [p]"
  by (induction p) auto

lemma split_join_amp:
  "pieces \<noteq> [] \<Longrightarrow> \<forall>p \<in> set pieces. CHR ''&'' \<notin> set p \<Longrightarrow>
   split_on CHR ''&'' (join_amp pieces) = pieces"
proof (induction pieces rule: join_amp.induct)
  case 1
  then show ?case by simp
next
  case (2 x)
  then show ?case by (simp add: split_on_last)
next
  case (3 x y ys)
  then show ?case by (simp add: split_on_piece)
qed

lemma piece_no_amp: "CHR ''&'' \<notin> set (piece kv)"
  using urlencode_chars by (auto simp: piece_def)

lemma parse_pair_piece: "parse_pair (piece kv) = kv"
proof -
  have n: "takeWhile (\<lambda>c. c \<noteq> CHR ''='') (piece kv) = urlencode (fst kv)"
    unfolding piece_def using urlencode_chars by (intro takeWhile_tail [THEN trans]) auto
  show ?thesis
    by (simp add: parse_pair_def n Let_def decode_urlencode) (simp add: piece_def decode_urlencode)
qed

lemma parse_serialize: "parse_urlencoded (serialize ps) = ps"
proof (cases "ps = []")
  case True
  then show ?thesis by (simp add: parse_urlencoded_def serialize_def)
next
  case False
  have "(\<lambda>(k, v). urlencode k @ CHR ''='' # urlencode v) = piece"
    by (auto simp: fun_eq_iff piece_def)
  then have s: "serialize ps = join_amp (map piece ps)"
    by (simp add: serialize_def)
  have sp: "split_on CHR ''&'' (join_amp (map piece ps)) = map piece ps"
    using False piece_no_amp by (intro split_join_amp) auto
  have ne: "filter (\<lambda>p. p \<noteq> []) (map piece ps) = map piece ps"
    by (simp add: filter_id_conv piece_def)
  show ?thesis
    by (simp add: parse_urlencoded_def s sp ne parse_pair_piece comp_def)
qed

subsection \<open>What \<open>appendFormValue\<close> appends\<close>

lemma fold_append_values:
  "(\<And>item ps. item \<in> set items \<Longrightarrow> f item ps = ps @ g item) \<Longrightarrow>
   fold f items ps = ps @ concat (map g items)"
  by (induction items arbitrary: ps) simp_all

lemma appendFormValue_values:
  "appendFormValue stringify ps key v = ps @ map (Pair key) (form_values stringify v)"
proof (induction stringify ps key v rule: appendFormValue.induct)
  case (2 stringify ps key items)
  have "fold (\<lambda>item acc. appendFormValue stringify acc key item) items ps =
        ps @ concat (map (\<lambda>item. map (Pair key) (form_values stringify item)) items)"
    by (rule fold_append_values) (simp add: 2)
  then show ?case by (simp add: map_concat comp_def)
qed (simp_all add: params_append_def)

lemma fold_entries:
  "fold (\<lambda>(key, v) acc. appendFormValue stringify acc key v) entries ps =
   ps @ form_pairs stringify entries"
proof -
  have "fold (\<lambda>(key, v) acc. appendFormValue stringify acc key v) entries ps =
        ps @ concat (map (\<lambda>(key, v). map (Pair key) (form_values stringify v)) entries)"
    by (rule fold_append_values) (auto simp: appendFormValue_values)
  then show ?thesis by (simp add: form_pairs_def)
qed

lemma profile_text:
  "toFormUrlEncodedBody (\<lambda>v. ''{}'') profile = ''name=a+b&tags=x%26y&tags=&tags=7&o=%7B%7D''"
  by (simp add: toFormUrlEncodedBody_def profile_def params_append_def serialize_def urlencode_def
      encode_byte_def urlencoded_safe_def hexdigit_def Let_def char_of_def bit_iff_odd)

subsection \<open>The round trip\<close>

text \<open>
  Claim C6, as stated, fails: by its rules a key whose value is \<open>undefined\<close> comes back
  with the string coercion of \<open>undefined\<close>, but the body \<open>{a: undefined}\<close> is serialized
  to the empty string, which parses to no pair at all.
\<close>

theorem form_round_trip_counterexample:
  "parse_urlencoded (toFormUrlEncodedBody (\<lambda>v. ''{}'') [(''a'', Undefined)]) = [] \<and>
   claimed_pairs (\<lambda>v. ''{}'') [(''a'', Undefined)] = [(''a'', ''undefined'')]"
  by (simp add: toFormUrlEncodedBody_def serialize_def parse_urlencoded_def claimed_pairs_def)

text \<open>
  Claim C6, amended.  For every plain key/value mapping, serializing it with
  \<open>toFormUrlEncodedBody\<close> (which is what \<open>serializeParsedBody\<close> does with it under a
  form-url-encoded content type) and parsing the text with the standard parser gives
  back its key/value pairs in order, where an array gives its key once per item, \<open>null\<close>
  the empty string, a nested plain object its JSON text, every other value its string
  coercion, and where \<open>undefined\<close> values and items give no pair.
\<close>

theorem form_round_trip:
  "parse_urlencoded (toFormUrlEncodedBody stringify entries) = form_pairs stringify entries \<and>
   parse_urlencoded (serializeParsedBody stringify (PlainObj entries) True) =
     form_pairs stringify entries"
  by (simp add: toFormUrlEncodedBody_def fold_entries parse_serialize)

theorem form_round_trip_witness:
  "toFormUrlEncodedBody (\<lambda>v. ''{}'') profile = ''name=a+b&tags=x%26y&tags=&tags=7&o=%7B%7D'' \<and>
   parse_urlencoded ''name=a+b&tags=x%26y&tags=&tags=7&o=%7B%7D'' =
     [(''name'', ''a b''), (''tags'', ''x&y''), (''tags'', ''''), (''tags'', ''7''), (''o'', ''{}'')]"
  using form_round_trip [of "\<lambda>v. ''{}''" profile] profile_text
  by (simp add: form_pairs_def profile_def)


section \<open>Properties of the outbound adapter\<close>

subsection \<open>The paths through \<open>setResponse\<close>\<close>

lemma fold_removeHeader:
  "fold removeHeader names s =
     s\<lparr>res_headers := filter (\<lambda>kv. fst kv \<notin> set names) (res_headers s)\<rparr>"
proof (induction names arbitrary: s)
  case Nil
  then show ?case by simp
next
  case (Cons n names)
  have "fold removeHeader (n # names) s = fold removeHeader names (removeHeader n s)" by simp
  also have "\<dots> = (removeHeader n s)
      \<lparr>res_headers := filter (\<lambda>kv. fst kv \<notin> set names) (res_headers (removeHeader n s))\<rparr>"
    by (rule Cons)
  also have "\<dots> = s\<lparr>res_headers := filter (\<lambda>kv. fst kv \<notin> set (n # names)) (res_headers s)\<rparr>"
    by (simp add: removeHeader_def case_prod_unfold conj_commute)
  finally show ?case .
qed

lemma strip_headers: "fold removeHeader (getHeaderNames s) s = s\<lparr>res_headers := []\<rparr>"
proof -
  have "filter (\<lambda>kv. fst kv \<notin> set (map fst (res_headers s))) (res_headers s) = []"
    by (simp add: filter_empty_conv)
  then show ?thesis by (simp add: fold_removeHeader getHeaderNames_def)
qed

lemma write_headers_Inl:
  "write_headers R S hs rest s = Inl (e, s') \<Longrightarrow>
   (\<exists>k v. (k, v) \<in> set rest \<and> R k (header_arg S hs k v) = Some e) \<and>
   (\<exists>h. s' = s\<lparr>res_headers := h\<rparr>)"
proof (induction rest arbitrary: s)
  case Nil
  then show ?case by simp
next
  case (Cons kv rest)
  obtain k v where kv: "kv = (k, v)" by (cases kv)
  show ?case
  proof (cases "R k (header_arg S hs k v)")
    case None
    let ?s1 = "s\<lparr>res_headers := put_header k (header_arg S hs k v) (res_headers s)\<rparr>"
    have "write_headers R S hs rest ?s1 = Inl (e, s')"
      using Cons.prems kv None by (simp add: setHeader_def)
    from Cons.IH [OF this] show ?thesis using kv by auto
  next
    case (Some e')
    then have "e' = e" and "s' = s" using Cons.prems kv by (simp_all add: setHeader_def)
    then show ?thesis using kv Some by (auto intro: exI [of _ "res_headers s"])
  qed
qed

lemma write_headers_Inr:
  "write_headers R S hs rest s = Inr s' \<Longrightarrow>
   (\<forall>(k, v) \<in> set rest. R k (header_arg S hs k v) = None) \<and> (\<exists>h. s' = s\<lparr>res_headers := h\<rparr>)"
proof (induction rest arbitrary: s)
  case Nil
  then show ?case by (auto intro: exI [of _ "res_headers s"])
next
  case (Cons kv rest)
  obtain k v where kv: "kv = (k, v)" by (cases kv)
  show ?case
  proof (cases "R k (header_arg S hs k v)")
    case None
    let ?s1 = "s\<lparr>res_headers := put_header k (header_arg S hs k v) (res_headers s)\<rparr>"
    have "write_headers R S hs rest ?s1 = Inr s'"
      using Cons.prems kv None by (simp add: setHeader_def)
    from Cons.IH [OF this] show ?thesis using kv None by auto
  next
    case (Some e')
    then show ?thesis using Cons.prems kv by (simp add: setHeader_def)
  qed
qed

lemma write_headers_accepts:
  "\<forall>(k, v) \<in> set rest. R k (header_arg S hs k v) = None \<Longrightarrow>
   \<exists>h. write_headers R S hs rest s = Inr (s\<lparr>res_headers := h\<rparr>)"
proof (induction rest arbitrary: s)
  case Nil
  then show ?case by (auto intro: exI [of _ "res_headers s"])
next
  case (Cons kv rest)
  obtain k v where kv: "kv = (k, v)" by (cases kv)
  let ?s1 = "s\<lparr>res_headers := put_header k (header_arg S hs k v) (res_headers s)\<rparr>"
  have "\<forall>(k, v) \<in> set rest. R k (header_arg S hs k v) = None" using Cons.prems by simp
  from Cons.IH [OF this, of ?s1]
  obtain h where "write_headers R S hs rest ?s1 = Inr (?s1\<lparr>res_headers := h\<rparr>)" by blast
  then have "write_headers R S hs (kv # rest) s = Inr (s\<lparr>res_headers := h\<rparr>)"
    using Cons.prems kv by (simp add: setHeader_def)
  then show ?case by blast
qed

lemma setResponse_rejected:
  assumes "(k, v) \<in> set (header_entries response)"
    and "rejects k (header_arg splitCookiesString (header_entries response) k v) \<noteq> None"
  shows "\<exists>k' v' e. (k', v') \<in> set (header_entries response) \<and>
           rejects k' (header_arg splitCookiesString (header_entries response) k' v') = Some e \<and>
           setResponse rejects splitCookiesString res response =
             res\<lparr>res_headers := [], statusCode := 500,
                 calls := calls res @ [WriteHead 500, ResEnd (Some (String_of e))]\<rparr>"
proof (cases "write_headers rejects splitCookiesString (header_entries response)
                (header_entries response) res")
  case (Inl es)
  obtain e s where es: "es = (e, s)" by (cases es)
  from write_headers_Inl [OF Inl [unfolded es]]
  obtain k' v' h where m: "(k', v') \<in> set (header_entries response)"
    and r: "rejects k' (header_arg splitCookiesString (header_entries response) k' v') = Some e"
    and s: "s = res\<lparr>res_headers := h\<rparr>" by blast
  have "setResponse rejects splitCookiesString res response =
          res\<lparr>res_headers := [], statusCode := 500,
              calls := calls res @ [WriteHead 500, ResEnd (Some (String_of e))]\<rparr>"
    using Inl es s by (simp add: setResponse_def strip_headers writeHead_def res_end_def)
  then show ?thesis using m r by blast
next
  case (Inr s)
  from write_headers_Inr [OF Inr] assms show ?thesis by auto
qed

lemma idle_emit: "idle s \<Longrightarrow> emit lambda ev s = s"
  by (cases ev) (simp_all add: idle_def)

lemma idle_emit_all: "idle s \<Longrightarrow> emit_all lambda evs s = s"
  unfolding emit_all_def by (induction evs) (simp_all add: idle_emit)

lemma accepted_headers:
  assumes "accepted rejects splitCookiesString response"
  shows "\<exists>h. write_headers rejects splitCookiesString (header_entries response)
                (header_entries response) res = Inr (res\<lparr>res_headers := h\<rparr>)"
  using assms write_headers_accepts [of "header_entries response" rejects splitCookiesString
      "header_entries response" res]
  by (simp add: accepted_def list_all_iff)

lemma setResponse_no_body:
  assumes "accepted rejects splitCookiesString response" and "resp_body response = None"
  shows "\<exists>h. setResponse rejects splitCookiesString res response =
           res\<lparr>res_headers := h, statusCode := status response,
               calls := calls res @ [WriteHead (status response), ResEnd None]\<rparr>"
proof -
  obtain h where "write_headers rejects splitCookiesString (header_entries response)
                (header_entries response) res = Inr (res\<lparr>res_headers := h\<rparr>)"
    using accepted_headers [OF assms(1)] by blast
  then have "setResponse rejects splitCookiesString res response =
           res\<lparr>res_headers := h, statusCode := status response,
               calls := calls res @ [WriteHead (status response), ResEnd None]\<rparr>"
    using assms(2) by (simp add: setResponse_def writeHead_def res_end_def)
  then show ?thesis by blast
qed

lemma setResponse_locked:
  assumes "accepted rejects splitCookiesString response"
    and "resp_body response = Some b" and "locked b"
  shows "\<exists>h. setResponse rejects splitCookiesString res response =
           res\<lparr>res_headers := h, statusCode := status response,
               calls := calls res @ [WriteHead (status response), ResEnd (Some [Txt locked_message])]\<rparr>"
proof -
  obtain h where "write_headers rejects splitCookiesString (header_entries response)
                (header_entries response) res = Inr (res\<lparr>res_headers := h\<rparr>)"
    using accepted_headers [OF assms(1)] by blast
  then have "setResponse rejects splitCookiesString res response =
           res\<lparr>res_headers := h, statusCode := status response,
               calls := calls res @ [WriteHead (status response), ResEnd (Some [Txt locked_message])]\<rparr>"
    using assms(2,3) by (simp add: setResponse_def writeHead_def res_end_def)
  then show ?thesis by blast
qed

lemma setResponse_destroyed:
  assumes "accepted rejects splitCookiesString response"
    and "resp_body response = Some b" and "\<not> locked b" and "res_destroyed res"
  shows "\<exists>h. setResponse rejects splitCookiesString res response =
           res\<lparr>res_headers := h, statusCode := status response,
               calls := calls res @ [WriteHead (status response), ReaderCancel None],
               reader_rest := chunks b, reader_failure := failure b, reader_closed := True,
               reader_errored := False\<rparr>"
proof -
  obtain h where "write_headers rejects splitCookiesString (header_entries response)
                (header_entries response) res = Inr (res\<lparr>res_headers := h\<rparr>)"
    using accepted_headers [OF assms(1)] by blast
  then have "setResponse rejects splitCookiesString res response =
           res\<lparr>res_headers := h, statusCode := status response,
               calls := calls res @ [WriteHead (status response), ReaderCancel None],
               reader_rest := chunks b, reader_failure := failure b, reader_closed := True,
               reader_errored := False\<rparr>"
    using assms(2,3,4)
    by (simp add: setResponse_def writeHead_def getReader_def reader_cancel_def Let_def)
  then show ?thesis by blast
qed

lemma setResponse_streaming:
  assumes "accepted rejects splitCookiesString response"
    and "resp_body response = Some b" and "\<not> locked b" and "\<not> res_destroyed res"
  shows "\<exists>h. setResponse rejects splitCookiesString res response =
           res\<lparr>res_headers := h, statusCode := status response,
               calls := calls res @ [WriteHead (status response)],
               reader_rest := chunks b, reader_failure := failure b, reader_closed := False,
               reader_errored := False,
               close_listeners := close_listeners res @ [CancelH],
               error_listeners := error_listeners res @ [CancelH], reading := True\<rparr>"
proof -
  obtain h where "write_headers rejects splitCookiesString (header_entries response)
                (header_entries response) res = Inr (res\<lparr>res_headers := h\<rparr>)"
    using accepted_headers [OF assms(1)] by blast
  then have "setResponse rejects splitCookiesString res response =
           res\<lparr>res_headers := h, statusCode := status response,
               calls := calls res @ [WriteHead (status response)],
               reader_rest := chunks b, reader_failure := failure b, reader_closed := False,
               reader_errored := False,
               close_listeners := close_listeners res @ [CancelH],
               error_listeners := error_listeners res @ [CancelH], reading := True\<rparr>"
    using assms(2,3,4)
    by (simp add: setResponse_def writeHead_def getReader_def next_start_def Let_def)
  then show ?thesis by blast
qed

lemma cancel_counts:
  "end_calls (cancel error s) = end_calls s \<and>
   reader_cancel_calls (cancel error s) = reader_cancel_calls s + 1 \<and>
   destroy_calls_of (cancel error s) = destroy_calls_of s + (case error of None \<Rightarrow> 0 | Some e \<Rightarrow> 1)"
  by (cases error)
    (simp_all add: cancel_def reader_cancel_def res_destroy_def end_calls_def
      reader_cancel_calls_def destroy_calls_of_def Let_def)

lemma cancel_listeners:
  "close_listeners s = [CancelH] \<Longrightarrow> error_listeners s = [CancelH] \<Longrightarrow>
   close_listeners (cancel error s) = [] \<and> error_listeners (cancel error s) = []"
  by (cases error) (simp_all add: cancel_def reader_cancel_def res_destroy_def off_def Let_def)

lemma emit_notification:
  "close_listeners s = [CancelH] \<Longrightarrow> error_listeners s = [CancelH] \<Longrightarrow> notification n \<Longrightarrow>
   emit lambda n s = cancel (case n of ErrorEv e \<Rightarrow> Some e | _ \<Rightarrow> None) s"
  by (cases n) simp_all

lemma emit_unregistered:
  "close_listeners s = [] \<Longrightarrow> error_listeners s = [] \<Longrightarrow> notification n \<Longrightarrow> emit lambda n s = s"
  by (cases n) simp_all

lemma page_accepted: "accepted accept_all one_cookie (page cs f)"
  by (simp add: accepted_def accept_all_def page_def)

lemma page_streaming:
  "setResponse accept_all one_cookie fresh_res (page cs f) =
     fresh_res\<lparr>res_headers := [(''x-powered-by'', Single ''Express''), (''content-type'', Single ''text/html'')],
               calls := [WriteHead 200], reader_rest := cs, reader_failure := f,
               close_listeners := [CancelH], error_listeners := [CancelH], reading := True\<rparr>"
  by (simp add: setResponse_def fresh_res_def page_def accept_all_def one_cookie_def
      setHeader_def header_arg_def writeHead_def getReader_def next_start_def Let_def)

lemma write_headers_first:
  assumes "list_all (\<lambda>(k', v'). R k' (header_arg S hs k' v') = None) pre"
    and "R k (header_arg S hs k v) = Some e"
  shows "\<exists>h. write_headers R S hs (pre @ (k, v) # post) s = Inl (e, s\<lparr>res_headers := h\<rparr>)"
  using assms
proof (induction pre arbitrary: s)
  case Nil
  then have "write_headers R S hs ([] @ (k, v) # post) s = Inl (e, s\<lparr>res_headers := res_headers s\<rparr>)"
    by (simp add: setHeader_def)
  then show ?case by blast
next
  case (Cons kv pre)
  obtain k' v' where kv: "kv = (k', v')" by (cases kv)
  let ?s1 = "s\<lparr>res_headers := put_header k' (header_arg S hs k' v') (res_headers s)\<rparr>"
  have a: "R k' (header_arg S hs k' v') = None" using Cons.prems(1) kv by simp
  have "list_all (\<lambda>(k', v'). R k' (header_arg S hs k' v') = None) pre" using Cons.prems(1) by simp
  from Cons.IH [OF this Cons.prems(2), of ?s1]
  obtain h where "write_headers R S hs (pre @ (k, v) # post) ?s1 = Inl (e, ?s1\<lparr>res_headers := h\<rparr>)"
    by blast
  then have "write_headers R S hs ((kv # pre) @ (k, v) # post) s = Inl (e, s\<lparr>res_headers := h\<rparr>)"
    using a kv by (simp add: setHeader_def)
  then show ?case by blast
qed

lemma armed_read:
  "armed rc d s \<Longrightarrow>
   armed rc d (emit lambda ReadSettles s) \<or> released rc d (emit lambda ReadSettles s)"
  by (auto simp: armed_def released_def next_iter_def reader_read_def res_write_def res_end_def
      cancel_def reader_cancel_def res_destroy_def off_def Let_def
      reader_cancel_calls_def destroy_calls_of_def
      split: list.splits option.splits if_splits)

lemma armed_drain: "armed rc d s \<Longrightarrow> armed rc d (emit lambda Drain s)"
  by (auto simp: armed_def next_start_def reader_cancel_calls_def destroy_calls_of_def)

lemma armed_notified:
  "armed rc d s \<Longrightarrow> notification n \<Longrightarrow> released rc d (emit lambda n s)"
  by (cases n)
    (auto simp: armed_def released_def cancel_def reader_cancel_def res_destroy_def off_def Let_def
      reader_cancel_calls_def destroy_calls_of_def)

lemma released_emit: "released rc d s \<Longrightarrow> released rc d (emit lambda ev s)"
  by (cases ev)
    (auto simp: released_def next_iter_def reader_read_def next_start_def
      reader_cancel_calls_def destroy_calls_of_def)

lemma armed_or_released_emit:
  assumes a: "armed rc d s \<or> released rc d s"
  shows "armed rc d (emit lambda ev s) \<or> released rc d (emit lambda ev s)"
proof (cases ev)
  case ReadSettles
  then show ?thesis using a armed_read released_emit by blast
next
  case Drain
  then show ?thesis using a armed_drain released_emit by blast
next
  case Close
  have n: "notification Close" by simp
  show ?thesis unfolding Close using a armed_notified [OF _ n] released_emit by blast
next
  case (ErrorEv e)
  have n: "notification (ErrorEv e)" by simp
  show ?thesis unfolding ErrorEv using a armed_notified [OF _ n] released_emit by blast
qed

lemma armed_or_released_emit_all:
  "armed rc d s \<or> released rc d s \<Longrightarrow>
   armed rc d (emit_all lambda evs s) \<or> released rc d (emit_all lambda evs s)"
  unfolding emit_all_def
proof (induction evs arbitrary: s)
  case Nil
  then show ?case by simp
next
  case (Cons ev evs)
  have "armed rc d (emit lambda ev s) \<or> released rc d (emit lambda ev s)"
    using Cons.prems by (rule armed_or_released_emit)
  from Cons.IH [OF this] show ?case by simp
qed

lemma armed_streaming:
  assumes "accepted rejects splitCookiesString response"
    and "resp_body response = Some b" and "\<not> locked b" and "\<not> res_destroyed res"
    and "close_listeners res = []" and "error_listeners res = []" and "drain_once res = []"
  shows "armed (reader_cancel_calls res) (destroy_calls_of res)
           (setResponse rejects splitCookiesString res response)"
proof -
  obtain h where s: "setResponse rejects splitCookiesString res response =
           res\<lparr>res_headers := h, statusCode := status response,
               calls := calls res @ [WriteHead (status response)],
               reader_rest := chunks b, reader_failure := failure b, reader_closed := False,
               reader_errored := False,
               close_listeners := close_listeners res @ [CancelH],
               error_listeners := error_listeners res @ [CancelH], reading := True\<rparr>"
    using setResponse_streaming [OF assms(1-4)] by blast
  show ?thesis
    using assms(5-7) by (simp add: s armed_def reader_cancel_calls_def destroy_calls_of_def)
qed

lemma armed_catch:
  assumes "armed rc d s" and "reading s" and "fst (reader_read s) = Rejected e"
  shows "fst (reader_cancel (Some (new_Error e)) (snd (reader_read s))) \<and>
         reader_cancel_calls (emit lambda ReadSettles s) = rc + 1 \<and>
         destroy_calls_of (emit lambda ReadSettles s) = d + 1 \<and>
         end_calls (emit lambda ReadSettles s) = end_calls s \<and>
         close_listeners (emit lambda ReadSettles s) = [] \<and>
         error_listeners (emit lambda ReadSettles s) = []"
  using assms
  by (auto simp: armed_def next_iter_def reader_read_def cancel_def reader_cancel_def
      res_destroy_def off_def Let_def reader_cancel_calls_def destroy_calls_of_def end_calls_def
      split: list.splits option.splits if_splits)

lemma page_after_chunk:
  "emit_all False [ReadSettles] (setResponse accept_all one_cookie fresh_res (page (c # cs) f)) =
     fresh_res\<lparr>res_headers := [(''x-powered-by'', Single ''Express''), (''content-type'', Single ''text/html'')],
               calls := [WriteHead 200, Write c, ResEnd None], reader_rest := cs, reader_failure := f,
               close_listeners := [CancelH], error_listeners := [CancelH], reading := True\<rparr>"
  by (simp add: page_streaming emit_all_def)
    (simp add: fresh_res_def next_iter_def reader_read_def res_write_def res_end_def)

lemma page_after_failure:
  "emit_all False [ReadSettles, ReadSettles]
     (setResponse accept_all one_cookie fresh_res (page [''a''] (Some boom))) =
     fresh_res\<lparr>res_headers := [(''x-powered-by'', Single ''Express''), (''content-type'', Single ''text/html'')],
               calls := [WriteHead 200, Write ''a'', ResEnd None, ReaderCancel (Some boom), Destroy boom],
               reader_failure := Some boom, reader_errored := True, res_destroyed := True\<rparr>"
  by (simp add: page_streaming emit_all_def)
    (simp add: fresh_res_def next_iter_def reader_read_def res_write_def res_end_def cancel_def
      reader_cancel_def res_destroy_def off_def new_Error_def boom_def Let_def)

lemma rejected_split:
  assumes "(k0, v0) \<in> set es" and "R k0 (header_arg S hs k0 v0) \<noteq> None"
  shows "\<exists>pre k v post e. es = pre @ (k, v) # post \<and>
           list_all (\<lambda>(k', v'). R k' (header_arg S hs k' v') = None) pre \<and>
           R k (header_arg S hs k v) = Some e"
proof -
  let ?bad = "\<lambda>kv. R (fst kv) (header_arg S hs (fst kv) (snd kv)) \<noteq> None"
  have "\<exists>kv \<in> set es. ?bad kv" using assms by force
  then obtain pre kv post where sp: "es = pre @ kv # post" and bad: "?bad kv"
    and ok: "\<forall>x \<in> set pre. \<not> ?bad x"
    using split_list_first_prop [of es ?bad] by blast
  obtain e where e: "R (fst kv) (header_arg S hs (fst kv) (snd kv)) = Some e" using bad by blast
  have "list_all (\<lambda>(k', v'). R k' (header_arg S hs k' v') = None) pre"
    using ok by (auto simp: list_all_iff)
  moreover have "es = pre @ (fst kv, snd kv) # post" using sp by simp
  ultimately show ?thesis using e by blast
qed

subsection \<open>A rejected header\<close>

text \<open>
  Claim C8.  If writing a header throws, the entries before it having been written,
  \<open>setResponse\<close> stops at that header, with the error \<open>e\<close> thrown for it, and returns the
  server response with an empty header buffer (the headers written before, and those
  that were there already, are removed), status code 500, and exactly two more calls:
  \<open>writeHead(500)\<close> and \<open>end\<close> with the text of \<open>e\<close>.  The entries after it are not
  looked at, whatever the transport makes of them.  (Whenever some header is rejected
  the entries split in this way, at the first rejected one.)  Everything else is as before: the
  status of the response is not written, nothing is read from the body, no listener is
  registered.
\<close>

theorem header_write_failure:
  assumes "header_entries response = pre @ (k, v) # post"
    and "list_all (\<lambda>(k', v'). rejects k' (header_arg splitCookiesString (header_entries response) k' v') = None) pre"
    and "rejects k (header_arg splitCookiesString (header_entries response) k v) = Some e"
  shows "setResponse rejects splitCookiesString res response =
           res\<lparr>res_headers := [], statusCode := 500,
               calls := calls res @ [WriteHead 500, ResEnd (Some (String_of e))]\<rparr>"
proof -
  obtain h where "write_headers rejects splitCookiesString (header_entries response)
      (pre @ (k, v) # post) res = Inl (e, res\<lparr>res_headers := h\<rparr>)"
    using write_headers_first [OF assms(2,3)] by blast
  then have "write_headers rejects splitCookiesString (header_entries response)
      (header_entries response) res = Inl (e, res\<lparr>res_headers := h\<rparr>)"
    by (simp add: assms(1))
  then show ?thesis
    by (simp add: setResponse_def strip_headers writeHead_def res_end_def)
qed

theorem header_write_failure_witness:
  "header_entries two_bad =
     [(''content-type'', ''text/html'')] @ (''x-a'', [CHR ''a'', CHR 0x0A]) # [(''x-b'', [CHR 0x0D, CHR ''b''])] \<and>
   no_control ''x-a'' (header_arg one_cookie (header_entries two_bad) ''x-a'' [CHR ''a'', CHR 0x0A]) =
     Some (ErrorObj ''TypeError'' [Txt ''Invalid character in header content ['', Txt ''x-a'', Txt '']'']) \<and>
   no_control ''x-b'' (header_arg one_cookie (header_entries two_bad) ''x-b'' [CHR 0x0D, CHR ''b'']) =
     Some (ErrorObj ''TypeError'' [Txt ''Invalid character in header content ['', Txt ''x-b'', Txt '']'']) \<and>
   setResponse no_control one_cookie fresh_res two_bad =
     fresh_res\<lparr>res_headers := [], statusCode := 500,
               calls := [WriteHead 500,
                         ResEnd (Some [Txt ''TypeError'', Txt '': '',
                                       Txt ''Invalid character in header content ['', Txt ''x-a'', Txt '']''])]\<rparr>"
proof -
  have sp: "header_entries two_bad =
     [(''content-type'', ''text/html'')] @ (''x-a'', [CHR ''a'', CHR 0x0A]) # [(''x-b'', [CHR 0x0D, CHR ''b''])]"
    by (simp add: two_bad_def)
  have pre: "list_all (\<lambda>(k', v'). no_control k' (header_arg one_cookie (header_entries two_bad) k' v') = None)
               [(''content-type'', ''text/html'')]"
    by (simp add: no_control_def header_arg_def)
  have a: "no_control ''x-a'' (header_arg one_cookie (header_entries two_bad) ''x-a'' [CHR ''a'', CHR 0x0A]) =
     Some (ErrorObj ''TypeError'' [Txt ''Invalid character in header content ['', Txt ''x-a'', Txt '']''])"
    by (simp add: no_control_def header_arg_def)
  have b: "no_control ''x-b'' (header_arg one_cookie (header_entries two_bad) ''x-b'' [CHR 0x0D, CHR ''b'']) =
     Some (ErrorObj ''TypeError'' [Txt ''Invalid character in header content ['', Txt ''x-b'', Txt '']''])"
    by (simp add: no_control_def header_arg_def)
  have c: "calls fresh_res = []" by (simp add: fresh_res_def)
  show ?thesis
    using sp a b c
      header_write_failure [where rejects = no_control and splitCookiesString = one_cookie
        and response = two_bad and res = fresh_res, OF sp pre a]
    by simp
qed

subsection \<open>The cancellation routine fires once\<close>

text \<open>
  Claim C7, as stated, fails on the number of \<open>destroy\<close> calls.  When \<open>close\<close> fires
  first and \<open>error\<close> second, \<open>destroy\<close> is not called at all: the first firing carries no
  error and the second finds no listener.  (And the routine has no guard of its own:
  called directly twice with an error it cancels the reader twice and destroys twice.)
\<close>

theorem cancel_once_counterexample:
  "destroy_calls_of
     (emit_all False [Close, ErrorEv boom] (setResponse accept_all one_cookie fresh_res (page [''a''] None))) = 0 \<and>
   reader_cancel_calls (cancel (Some boom) (cancel (Some boom)
     (setResponse accept_all one_cookie fresh_res (page [''a''] None)))) = 2 \<and>
   destroy_calls_of (cancel (Some boom) (cancel (Some boom)
     (setResponse accept_all one_cookie fresh_res (page [''a''] None)))) = 2"
  by (simp add: emit_all_def setResponse_def fresh_res_def page_def accept_all_def one_cookie_def
      setHeader_def header_arg_def writeHead_def getReader_def next_start_def cancel_def
      reader_cancel_def res_destroy_def off_def destroy_calls_of_def reader_cancel_calls_def Let_def)

text \<open>
  Claim C7, amended.  Take any state the response can reach after \<open>setResponse\<close> has
  registered \<open>cancel\<close> on a response that had no listeners.  While \<open>cancel\<close> is still
  registered, neither the reader's \<open>cancel\<close> nor \<open>destroy\<close> has been called; if \<open>close\<close>
  and \<open>error\<close> then fire one after the other, in any order and with any errors, the
  routine runs at the first firing only, having removed itself: that firing calls the
  reader's \<open>cancel\<close> exactly once, \<open>destroy\<close> exactly once if it is an \<open>error\<close> and not at
  all if it is \<open>close\<close>, and \<open>end\<close> not at all, and the second firing changes nothing.
  When instead a read fails while \<open>cancel\<close> is registered, the loop calls the routine:
  the reader's \<open>cancel\<close> rejects, the rejection is dropped, and the routine goes on to
  destroy the response and has removed itself.  Once \<open>cancel\<close> is no longer registered
  the reader's \<open>cancel\<close> has been called exactly once and \<open>destroy\<close> at most once, and
  \<open>close\<close> and \<open>error\<close> change nothing.
\<close>

theorem cancel_once:
  assumes "accepted rejects splitCookiesString response"
    and "resp_body response = Some b" and "\<not> locked b" and "\<not> res_destroyed res"
    and "close_listeners res = []" and "error_listeners res = []" and "drain_once res = []"
    and "s = emit_all lambda evs (setResponse rejects splitCookiesString res response)"
    and "notification n1" and "notification n2"
  shows "(close_listeners s = [CancelH] \<and> error_listeners s = [CancelH] \<longrightarrow>
            reader_cancel_calls s = reader_cancel_calls res \<and>
            destroy_calls_of s = destroy_calls_of res \<and>
            reader_cancel_calls (emit lambda n1 s) = reader_cancel_calls res + 1 \<and>
            destroy_calls_of (emit lambda n1 s) = destroy_calls_of res + errors_of n1 \<and>
            end_calls (emit lambda n1 s) = end_calls s \<and>
            emit lambda n2 (emit lambda n1 s) = emit lambda n1 s) \<and>
         (close_listeners s = [CancelH] \<and> error_listeners s = [CancelH] \<and> reading s \<and>
            fst (reader_read s) = Rejected e \<longrightarrow>
            fst (reader_cancel (Some (new_Error e)) (snd (reader_read s))) \<and>
            reader_cancel_calls (emit lambda ReadSettles s) = reader_cancel_calls res + 1 \<and>
            destroy_calls_of (emit lambda ReadSettles s) = destroy_calls_of res + 1 \<and>
            end_calls (emit lambda ReadSettles s) = end_calls s \<and>
            close_listeners (emit lambda ReadSettles s) = [] \<and>
            error_listeners (emit lambda ReadSettles s) = []) \<and>
         (\<not> (close_listeners s = [CancelH] \<and> error_listeners s = [CancelH]) \<longrightarrow>
            close_listeners s = [] \<and> error_listeners s = [] \<and>
            reader_cancel_calls s = reader_cancel_calls res + 1 \<and>
            destroy_calls_of s \<le> destroy_calls_of res + 1 \<and>
            emit lambda n1 s = s)"
proof -
  let ?rc = "reader_cancel_calls res" and ?d = "destroy_calls_of res"
  have "armed ?rc ?d (setResponse rejects splitCookiesString res response)"
    using assms(1-7) by (rule armed_streaming)
  then have inv: "armed ?rc ?d s \<or> released ?rc ?d s"
    unfolding assms(8) by (intro armed_or_released_emit_all) simp
  have 1: "reader_cancel_calls s = ?rc \<and> destroy_calls_of s = ?d \<and>
            reader_cancel_calls (emit lambda n1 s) = ?rc + 1 \<and>
            destroy_calls_of (emit lambda n1 s) = ?d + errors_of n1 \<and>
            end_calls (emit lambda n1 s) = end_calls s \<and>
            emit lambda n2 (emit lambda n1 s) = emit lambda n1 s"
    if c: "close_listeners s = [CancelH]" and e: "error_listeners s = [CancelH]"
  proof -
    let ?arg = "case n1 of ErrorEv e \<Rightarrow> Some e | _ \<Rightarrow> None"
    have a: "armed ?rc ?d s" using inv c by (auto simp: released_def)
    then have k: "reader_cancel_calls s = ?rc" "destroy_calls_of s = ?d"
      by (simp_all add: armed_def)
    have e1: "emit lambda n1 s = cancel ?arg s"
      using c e assms(9) by (rule emit_notification)
    have e2: "emit lambda n2 (cancel ?arg s) = cancel ?arg s"
      using cancel_listeners [OF c e] assms(10) by (intro emit_unregistered) simp_all
    have d: "(case ?arg of None \<Rightarrow> 0 | Some e \<Rightarrow> 1) = errors_of n1"
      by (cases n1) simp_all
    show ?thesis
      using cancel_counts [of ?arg s] by (simp only: e1 e2 k d)
  qed
  have 2: "fst (reader_cancel (Some (new_Error e)) (snd (reader_read s))) \<and>
            reader_cancel_calls (emit lambda ReadSettles s) = ?rc + 1 \<and>
            destroy_calls_of (emit lambda ReadSettles s) = ?d + 1 \<and>
            end_calls (emit lambda ReadSettles s) = end_calls s \<and>
            close_listeners (emit lambda ReadSettles s) = [] \<and>
            error_listeners (emit lambda ReadSettles s) = []"
    if c: "close_listeners s = [CancelH]" and r: "reading s" and f: "fst (reader_read s) = Rejected e"
  proof -
    have a: "armed ?rc ?d s" using inv c by (auto simp: released_def)
    show ?thesis using a r f by (rule armed_catch)
  qed
  have 3: "close_listeners s = [] \<and> error_listeners s = [] \<and>
            reader_cancel_calls s = ?rc + 1 \<and> destroy_calls_of s \<le> ?d + 1 \<and>
            emit lambda n1 s = s"
    if n: "\<not> (close_listeners s = [CancelH] \<and> error_listeners s = [CancelH])"
  proof -
    have r: "released ?rc ?d s" using inv n by (auto simp: armed_def)
    then have l: "close_listeners s = []" "error_listeners s = []" by (simp_all add: released_def)
    have "emit lambda n1 s = s" using l assms(9) by (rule emit_unregistered)
    then show ?thesis using r by (simp add: released_def)
  qed
  show ?thesis using 1 2 3 by blast
qed

theorem cancel_once_witness:
  "accepted accept_all one_cookie (page [''a'', ''b''] None) \<and>
   \<not> res_destroyed fresh_res \<and> close_listeners fresh_res = [] \<and> error_listeners fresh_res = [] \<and>
   drain_once fresh_res = [] \<and> notification (ErrorEv boom) \<and> notification Close \<and>
   close_listeners (emit_all False [ReadSettles]
      (setResponse accept_all one_cookie fresh_res (page [''a'', ''b''] None))) = [CancelH] \<and>
   calls (emit False (ErrorEv boom) (emit_all False [ReadSettles]
      (setResponse accept_all one_cookie fresh_res (page [''a'', ''b''] None)))) =
     [WriteHead 200, Write ''a'', ResEnd None, ReaderCancel (Some boom), Destroy boom] \<and>
   emit False Close (emit False (ErrorEv boom) (emit_all False [ReadSettles]
      (setResponse accept_all one_cookie fresh_res (page [''a'', ''b''] None)))) =
     emit False (ErrorEv boom) (emit_all False [ReadSettles]
      (setResponse accept_all one_cookie fresh_res (page [''a'', ''b''] None))) \<and>
   reader_cancel_calls (emit False (ErrorEv boom) (emit_all False [ReadSettles]
      (setResponse accept_all one_cookie fresh_res (page [''a'', ''b''] None)))) = 1 \<and>
   destroy_calls_of (emit False (ErrorEv boom) (emit_all False [ReadSettles]
      (setResponse accept_all one_cookie fresh_res (page [''a'', ''b''] None)))) = 1 \<and>
   fst (reader_read (emit_all False [ReadSettles]
      (setResponse accept_all one_cookie fresh_res (page [''a''] (Some boom))))) = Rejected boom \<and>
   fst (reader_cancel (Some (new_Error boom)) (snd (reader_read (emit_all False [ReadSettles]
      (setResponse accept_all one_cookie fresh_res (page [''a''] (Some boom))))))) \<and>
   calls (emit False ReadSettles (emit_all False [ReadSettles]
      (setResponse accept_all one_cookie fresh_res (page [''a''] (Some boom))))) =
     [WriteHead 200, Write ''a'', ResEnd None, ReaderCancel (Some boom), Destroy boom] \<and>
   close_listeners (emit_all False [ReadSettles, ReadSettles]
      (setResponse accept_all one_cookie fresh_res (page [''a''] (Some boom)))) = [] \<and>
   reader_cancel_calls (emit_all False [ReadSettles, ReadSettles]
      (setResponse accept_all one_cookie fresh_res (page [''a''] (Some boom)))) = 1 \<and>
   emit False Close (emit_all False [ReadSettles, ReadSettles]
      (setResponse accept_all one_cookie fresh_res (page [''a''] (Some boom)))) =
     emit_all False [ReadSettles, ReadSettles]
      (setResponse accept_all one_cookie fresh_res (page [''a''] (Some boom)))"
proof -
  let ?A = "emit_all False [ReadSettles] (setResponse accept_all one_cookie fresh_res (page [''a'', ''b''] None))"
  let ?B = "emit_all False [ReadSettles] (setResponse accept_all one_cookie fresh_res (page [''a''] (Some boom)))"
  let ?C = "emit_all False [ReadSettles, ReadSettles]
              (setResponse accept_all one_cookie fresh_res (page [''a''] (Some boom)))"
  have b: "resp_body (page cs f) = Some \<lparr> locked = False, chunks = cs, failure = f \<rparr>" for cs f
    by (simp add: page_def)
  have l: "\<not> locked \<lparr> locked = False, chunks = cs, failure = f \<rparr>" for cs :: "string list" and f
    by simp
  have d: "\<not> res_destroyed fresh_res" by (simp add: fresh_res_def)
  have c: "close_listeners fresh_res = []" by (simp add: fresh_res_def)
  have e: "error_listeners fresh_res = []" by (simp add: fresh_res_def)
  have o: "drain_once fresh_res = []" by (simp add: fresh_res_def)
  have n1: "notification (ErrorEv boom)" by simp
  have n2: "notification Close" by simp
  have k: "reader_cancel_calls fresh_res = 0 \<and> destroy_calls_of fresh_res = 0"
    by (simp add: fresh_res_def reader_cancel_calls_def destroy_calls_of_def)
  have la: "close_listeners ?A = [CancelH] \<and> error_listeners ?A = [CancelH]"
    by (simp add: page_after_chunk)
  have lb: "close_listeners ?B = [CancelH] \<and> error_listeners ?B = [CancelH] \<and> reading ?B \<and>
            fst (reader_read ?B) = Rejected boom"
    by (simp add: page_after_chunk) (simp add: reader_read_def fresh_res_def)
  have lc: "close_listeners ?C = [] \<and> error_listeners ?C = []"
    by (simp add: page_after_failure) (simp add: fresh_res_def)
  have ca: "calls (emit False (ErrorEv boom) ?A) =
              [WriteHead 200, Write ''a'', ResEnd None, ReaderCancel (Some boom), Destroy boom]"
    by (simp add: page_after_chunk)
      (simp add: fresh_res_def cancel_def reader_cancel_def res_destroy_def off_def Let_def)
  have cb: "emit False ReadSettles ?B = ?C" by (simp add: emit_all_def)
  have cc: "calls ?C = [WriteHead 200, Write ''a'', ResEnd None, ReaderCancel (Some boom), Destroy boom]"
    by (simp add: page_after_failure)
  show ?thesis
    using d c e o k la lb lc ca cb cc page_accepted [of "[''a'', ''b'']" None]
      cancel_once [where lambda = False and evs = "[ReadSettles]" and e = boom,
        OF page_accepted [of "[''a'', ''b'']" None] b [of "[''a'', ''b'']" None] l d c e o refl n1 n2]
      cancel_once [where lambda = False and evs = "[ReadSettles]" and e = boom,
        OF page_accepted [of "[''a'']" "Some boom"] b [of "[''a'']" "Some boom"] l d c e o refl n1 n2]
      cancel_once [where lambda = False and evs = "[ReadSettles, ReadSettles]" and e = boom,
        OF page_accepted [of "[''a'']" "Some boom"] b [of "[''a'']" "Some boom"] l d c e o refl n2 n2]
    by simp
qed

subsection \<open>Calls of \<open>end\<close>\<close>

text \<open>
  The loop of \<open>next\<close> calls \<open>end\<close> after each accepted write and not when the stream is
  done: no call for a body without chunks, two calls for two accepted chunks.
\<close>

lemma end_after_each_write:
  "calls (emit_all False [ReadSettles] (setResponse accept_all one_cookie fresh_res (page [] None))) =
     [WriteHead 200] \<and>
   calls (emit_all False [ReadSettles, ReadSettles, ReadSettles]
            (setResponse accept_all one_cookie fresh_res (page [''a'', ''b''] None))) =
     [WriteHead 200, Write ''a'', ResEnd None, Write ''b'', ResEnd None]"
  by (simp add: page_streaming emit_all_def)
    (simp add: fresh_res_def next_iter_def reader_read_def res_write_def res_end_def)

text \<open>
  Claim C1, as stated, fails.  When the body fails at its first read, the response is
  destroyed and \<open>end\<close> is never called; when the client disconnects while a read is
  pending, the reader is cancelled and \<open>end\<close> is never called, whatever happens later.
\<close>

theorem end_exactly_once_counterexample:
  "calls (emit_all False [ReadSettles, Close, Drain]
            (setResponse accept_all one_cookie fresh_res (page [] (Some boom)))) =
     [WriteHead 200, ReaderCancel (Some boom), Destroy boom] \<and>
   end_calls (emit_all False [ReadSettles, Close, Drain]
            (setResponse accept_all one_cookie fresh_res (page [] (Some boom)))) = 0 \<and>
   calls (emit_all False [Close, ReadSettles, Drain]
            (setResponse accept_all one_cookie fresh_res (page [''a''] None))) =
     [WriteHead 200, ReaderCancel None] \<and>
   end_calls (emit_all False [Close, ReadSettles, Drain]
            (setResponse accept_all one_cookie fresh_res (page [''a''] None))) = 0"
  by (simp add: page_streaming emit_all_def end_calls_def)
    (simp add: fresh_res_def next_iter_def reader_read_def cancel_def reader_cancel_def
      res_destroy_def off_def new_Error_def boom_def Let_def)

text \<open>
  Claim C1, amended.  On a response that was idle, whatever is emitted afterwards:
  \<open>setResponse\<close> calls \<open>end\<close> exactly once when a header is rejected, when the response
  has no body and when its body is locked; when the response is already destroyed it
  calls \<open>end\<close> not at all and cancels the reader once.  The \<open>cancel\<close> routine, which runs
  on a failure of the body and on \<open>close\<close> and \<open>error\<close>, never calls \<open>end\<close>: it cancels
  the reader, and destroys the response when it is given an error.  (Nothing is said
  here of a body that is streamed to its end.)
\<close>

theorem end_calls_by_path:
  assumes "idle res"
  shows "(\<not> accepted rejects splitCookiesString response \<or> resp_body response = None \<or>
            (\<exists>b. resp_body response = Some b \<and> locked b) \<longrightarrow>
            end_calls (emit_all lambda evs (setResponse rejects splitCookiesString res response)) =
              end_calls res + 1) \<and>
         (accepted rejects splitCookiesString response \<and>
            (\<exists>b. resp_body response = Some b \<and> \<not> locked b) \<and> res_destroyed res \<longrightarrow>
            end_calls (emit_all lambda evs (setResponse rejects splitCookiesString res response)) =
              end_calls res \<and>
            reader_cancel_calls (emit_all lambda evs (setResponse rejects splitCookiesString res response)) =
              reader_cancel_calls res + 1) \<and>
         end_calls (cancel error s) = end_calls s \<and>
         reader_cancel_calls (cancel error s) = reader_cancel_calls s + 1 \<and>
         destroy_calls_of (cancel error s) = destroy_calls_of s + (case error of None \<Rightarrow> 0 | Some e \<Rightarrow> 1)"
proof -
  let ?s = "setResponse rejects splitCookiesString res response"
  have rejected: "end_calls (emit_all lambda evs ?s) = end_calls res + 1"
    if na: "\<not> accepted rejects splitCookiesString response"
  proof -
    from na obtain k v where "(k, v) \<in> set (header_entries response)"
      and "rejects k (header_arg splitCookiesString (header_entries response) k v) \<noteq> None"
      by (auto simp: accepted_def list_all_iff)
    from setResponse_rejected [where rejects = rejects and res = res
        and splitCookiesString = splitCookiesString and response = response and k = k and v = v, OF this]
    obtain e where s: "?s = res\<lparr>res_headers := [], statusCode := 500,
                 calls := calls res @ [WriteHead 500, ResEnd (Some (String_of e))]\<rparr>" by blast
    have "idle ?s" using assms by (simp add: s idle_def)
    then show ?thesis by (simp add: idle_emit_all) (simp add: s end_calls_def)
  qed
  have no_body: "end_calls (emit_all lambda evs ?s) = end_calls res + 1"
    if a: "accepted rejects splitCookiesString response" and n: "resp_body response = None"
  proof -
    obtain h where s: "?s = res\<lparr>res_headers := h, statusCode := status response,
               calls := calls res @ [WriteHead (status response), ResEnd None]\<rparr>"
      using setResponse_no_body [OF a n] by blast
    have "idle ?s" using assms by (simp add: s idle_def)
    then show ?thesis by (simp add: idle_emit_all) (simp add: s end_calls_def)
  qed
  have locked_body: "end_calls (emit_all lambda evs ?s) = end_calls res + 1"
    if a: "accepted rejects splitCookiesString response" and b: "resp_body response = Some b"
      and l: "locked b" for b
  proof -
    obtain h where s: "?s = res\<lparr>res_headers := h, statusCode := status response,
               calls := calls res @ [WriteHead (status response), ResEnd (Some [Txt locked_message])]\<rparr>"
      using setResponse_locked [OF a b l] by blast
    have "idle ?s" using assms by (simp add: s idle_def)
    then show ?thesis by (simp add: idle_emit_all) (simp add: s end_calls_def)
  qed
  have gone: "end_calls (emit_all lambda evs ?s) = end_calls res \<and>
              reader_cancel_calls (emit_all lambda evs ?s) = reader_cancel_calls res + 1"
    if a: "accepted rejects splitCookiesString response" and b: "resp_body response = Some b"
      and l: "\<not> locked b" and d: "res_destroyed res" for b
  proof -
    obtain h where s: "?s = res\<lparr>res_headers := h, statusCode := status response,
               calls := calls res @ [WriteHead (status response), ReaderCancel None],
               reader_rest := chunks b, reader_failure := failure b, reader_closed := True,
               reader_errored := False\<rparr>"
      using setResponse_destroyed [OF a b l d] by blast
    have "idle ?s" using assms by (simp add: s idle_def)
    then show ?thesis
      by (simp add: idle_emit_all) (simp add: s end_calls_def reader_cancel_calls_def)
  qed
  have 1: "\<not> accepted rejects splitCookiesString response \<or> resp_body response = None \<or>
            (\<exists>b. resp_body response = Some b \<and> locked b) \<longrightarrow>
            end_calls (emit_all lambda evs ?s) = end_calls res + 1"
    using rejected no_body locked_body by blast
  have 2: "accepted rejects splitCookiesString response \<and>
            (\<exists>b. resp_body response = Some b \<and> \<not> locked b) \<and> res_destroyed res \<longrightarrow>
            end_calls (emit_all lambda evs ?s) = end_calls res \<and>
            reader_cancel_calls (emit_all lambda evs ?s) = reader_cancel_calls res + 1"
    using gone by blast
  show ?thesis using 1 2 cancel_counts [of error s] by blast
qed

theorem end_calls_by_path_witness:
  "idle fresh_res \<and> accepted accept_all one_cookie empty_reply \<and> resp_body empty_reply = None \<and>
   end_calls (emit_all False [Close, Drain, ReadSettles]
                (setResponse accept_all one_cookie fresh_res empty_reply)) = 1 \<and>
   calls (setResponse accept_all one_cookie fresh_res empty_reply) = [WriteHead 204, ResEnd None] \<and>
   \<not> accepted no_newline one_cookie bad_reply \<and>
   end_calls (emit_all False [Close, Drain, ReadSettles]
                (setResponse no_newline one_cookie fresh_res bad_reply)) = 1 \<and>
   accepted accept_all one_cookie (page [''a''] None) \<and>
   end_calls (emit_all False [Close, Drain, ReadSettles]
                (setResponse accept_all one_cookie (fresh_res\<lparr>res_destroyed := True\<rparr>) (page [''a''] None))) = 0 \<and>
   reader_cancel_calls (emit_all False [Close, Drain, ReadSettles]
                (setResponse accept_all one_cookie (fresh_res\<lparr>res_destroyed := True\<rparr>) (page [''a''] None))) = 1"
proof -
  have i: "idle fresh_res" by (simp add: idle_def fresh_res_def)
  have j: "idle (fresh_res\<lparr>res_destroyed := True\<rparr>)" by (simp add: idle_def fresh_res_def)
  have a: "accepted accept_all one_cookie empty_reply"
    by (simp add: accepted_def accept_all_def empty_reply_def)
  have n: "resp_body empty_reply = None" by (simp add: empty_reply_def)
  have r: "\<not> accepted no_newline one_cookie bad_reply"
    by (simp add: accepted_def no_newline_def bad_reply_def header_arg_def)
  have b: "\<exists>b. resp_body (page [''a''] None) = Some b \<and> \<not> locked b" by (simp add: page_def)
  have z: "end_calls fresh_res = 0 \<and> reader_cancel_calls fresh_res = 0"
    by (simp add: fresh_res_def end_calls_def reader_cancel_calls_def)
  have c: "calls (setResponse accept_all one_cookie fresh_res empty_reply) = [WriteHead 204, ResEnd None]"
    by (simp add: setResponse_def fresh_res_def empty_reply_def accept_all_def setHeader_def
        header_arg_def writeHead_def res_end_def)
  show ?thesis
    using i a n r b z c page_accepted [of "[''a'']" None]
      end_calls_by_path [OF i, of accept_all one_cookie empty_reply False "[Close, Drain, ReadSettles]"]
      end_calls_by_path [OF i, of no_newline one_cookie bad_reply False "[Close, Drain, ReadSettles]"]
      end_calls_by_path [OF j, of accept_all one_cookie "page [''a''] None" False "[Close, Drain, ReadSettles]"]
    by (simp add: end_calls_def reader_cancel_calls_def)
qed

end
